theory Spec2Isabelle
  imports Main
begin

section \<open>JavaScript values\<close>

text \<open>
  The conductor works on JSON data.  A JavaScript value that may also be \<open>undefined\<close>
  is a \<open>json option\<close> with \<open>None\<close> for \<open>undefined\<close>.  Numbers are integers (the
  state indices and offsets of the FSM are); an object is the list of its properties in
  insertion order, read at the first entry of a name.  A property whose value is
  \<open>undefined\<close> is not listed: the conductor never enumerates such an object, and
  \<open>JSON.stringify\<close> drops it.  On such data \<open>JSON.parse(JSON.stringify(v))\<close> returns
  \<open>v\<close> for a defined \<open>v\<close> and throws a SyntaxError for \<open>undefined\<close>.  Only own
  properties are modelled, not the members inherited from the built-in prototypes.
  Strings are lists of characters, one for each code unit.

  Two source files carry the conductor.  The one that compiles to relative offsets
  (\<open>function conductor\<close>) is modelled in full.  Of the one that compiles to object
  pointers and linearises them (composer.js) the compiler, \<open>__init__\<close> and the body of
  the loop of \<open>main\<close> are modelled after it; \<open>inspect\<close>, \<open>run\<close> and the final state
  are the same text in both files.
\<close>

datatype json =
    JNull
  | JBool bool
  | JNum int
  | JStr string
  | JArr "json list"
  | JObj "(string \<times> json) list"

datatype exn = TypeError | SyntaxError

text \<open>Functions that may throw return \<open>exn + 'a\<close>; \<open>bnd\<close> sequences them.\<close>

definition bnd :: "exn + 'a \<Rightarrow> ('a \<Rightarrow> exn + 'b) \<Rightarrow> exn + 'b" where
  "bnd m f = (case m of Inl e \<Rightarrow> Inl e | Inr x \<Rightarrow> f x)"

lemma bnd_cong [fundef_cong]:
  "m = m' \<Longrightarrow> (\<And>x. m' = Inr x \<Longrightarrow> f x = f' x) \<Longrightarrow> bnd m f = bnd m' f'"
  by (simp add: bnd_def split: sum.splits)


text \<open>Truthiness of a JavaScript value (\<open>undefined\<close>, \<open>null\<close>, \<open>false\<close>, \<open>0\<close> and
  the empty string are falsy).\<close>

fun truthy :: "json option \<Rightarrow> bool" where
  "truthy None = False"
| "truthy (Some JNull) = False"
| "truthy (Some (JBool b)) = b"
| "truthy (Some (JNum n)) = (n \<noteq> 0)"
| "truthy (Some (JStr s)) = (s \<noteq> [])"
| "truthy (Some (JArr _)) = True"
| "truthy (Some (JObj _)) = True"

subsection \<open>Decimal numerals and array indices\<close>

definition digit_char :: "nat \<Rightarrow> char" where
  "digit_char d = ''0123456789'' ! d"

fun show_nat :: "nat \<Rightarrow> string" where
  "show_nat n = (if n < 10 then [digit_char n] else show_nat (n div 10) @ [digit_char (n mod 10)])"

declare show_nat.simps [simp del]

definition show_int :: "int \<Rightarrow> string" where
  "show_int i = (if i < 0 then CHR ''-'' # show_nat (nat (- i)) else show_nat (nat i))"

text \<open>A property name is an array index when it is the canonical decimal numeral of a
  natural number: \<open>0\<close>, or digits that do not start with \<open>0\<close>.\<close>

fun parse_nat :: "nat \<Rightarrow> string \<Rightarrow> nat option" where
  "parse_nat acc [] = Some acc"
| "parse_nat acc (c # cs) =
     (let d = (of_char c :: nat) in
      if 48 \<le> d \<and> d \<le> 57 then parse_nat (10 * acc + (d - 48)) cs else None)"

definition array_index :: "string \<Rightarrow> nat option" where
  "array_index k = (case k of
       [] \<Rightarrow> None
     | c # cs \<Rightarrow> if c = CHR ''0'' then (if cs = [] then Some 0 else None) else parse_nat 0 k)"

subsection \<open>Reading a property\<close>

text \<open>\<open>v[k]\<close> on the properties of the value itself: a TypeError on \<open>undefined\<close> and
  \<open>null\<close>; the entry of an object; the element or the length of an array or a string;
  \<open>undefined\<close> otherwise.  The conductor reads the names \<open>value\<close>, \<open>error\<close>,
  \<open>$resume\<close> and \<open>type\<close> this way, which no prototype defines.\<close>

definition element_at :: "'a list \<Rightarrow> string \<Rightarrow> 'a option" where
  "element_at xs k = (case array_index k of
       Some i \<Rightarrow> if i < length xs then Some (xs ! i) else None
     | None \<Rightarrow> None)"

fun getp :: "json option \<Rightarrow> string \<Rightarrow> exn + json option" where
  "getp None k = Inl TypeError"
| "getp (Some JNull) k = Inl TypeError"
| "getp (Some (JObj kvs)) k = Inr (map_of kvs k)"
| "getp (Some (JArr xs)) k =
     Inr (if k = ''length'' then Some (JNum (int (length xs))) else element_at xs k)"
| "getp (Some (JStr s)) k =
     Inr (if k = ''length'' then Some (JNum (int (length s)))
          else map_option (\<lambda>c. JStr [c]) (element_at s k))"
| "getp (Some (JBool _)) k = Inr None"
| "getp (Some (JNum _)) k = Inr None"

text \<open>
  \<open>JSON.parse(JSON.stringify({ params: params[field] }))\<close> reads a name that the
  composition chooses, so the lookup may end in the prototype of the value.  What a
  prototype holds under a name are functions, which \<open>JSON.stringify\<close> leaves out as it
  does \<open>undefined\<close>, except for \<open>__proto__\<close>, which gives the prototype object itself:
  \<open>Object.prototype\<close>, \<open>Array.prototype\<close>, \<open>String.prototype\<close>, \<open>Number.prototype\<close> or
  \<open>Boolean.prototype\<close>, serialised as \<open>{}\<close>, \<open>[]\<close>, \<open>""\<close>, \<open>0\<close> and \<open>false\<close>.
  \<open>read_field\<close> is the value as the clone sees it.
\<close>

definition prototype_json :: "json \<Rightarrow> json" where
  "prototype_json v = (case v of
       JObj _ \<Rightarrow> JObj []
     | JArr _ \<Rightarrow> JArr []
     | JStr _ \<Rightarrow> JStr []
     | JNum _ \<Rightarrow> JNum 0
     | JBool _ \<Rightarrow> JBool False
     | JNull \<Rightarrow> JNull)"

definition read_field :: "json option \<Rightarrow> string \<Rightarrow> exn + json option" where
  "read_field p k = (case getp p k of
       Inl x \<Rightarrow> Inl x
     | Inr (Some v) \<Rightarrow> Inr (Some v)
     | Inr None \<Rightarrow> Inr (if k = ''__proto__'' then map_option prototype_json p else None))"

text \<open>\<open>o[k] = v\<close> on the properties of an object: an existing entry keeps its place, a
  new one goes last.\<close>

fun put :: "string \<Rightarrow> json \<Rightarrow> (string \<times> json) list \<Rightarrow> (string \<times> json) list" where
  "put k v [] = [(k, v)]"
| "put k v ((k', v') # kvs) = (if k' = k then (k, v) # kvs else (k', v') # put k v kvs)"

text \<open>\<open>{ k: v }\<close> as JSON sees it: nothing when \<open>v\<close> is \<open>undefined\<close>.\<close>

definition entry :: "string \<Rightarrow> json option \<Rightarrow> (string \<times> json) list" where
  "entry k v = (case v of None \<Rightarrow> [] | Some x \<Rightarrow> [(k, x)])"

section \<open>The conductor's state\<close>

text \<open>
  A stack frame is an object with up to three fields the conductor reads: \<open>catch\<close> (a
  state index, installed by \<open>try\<close>), \<open>let\<close> (a plain object of bindings, installed by
  \<open>let\<close>) and \<open>params\<close> (installed by \<open>push\<close>).  Every frame the conductor installs has
  this form; a continuation made by hand with other stack entries is outside the model.
\<close>

record frame =
  frame_catch :: "int option"
  frame_let :: "(string \<times> json) list option"
  frame_params :: "json option"

definition catch_frame :: "int \<Rightarrow> frame" where
  "catch_frame n = \<lparr>frame_catch = Some n, frame_let = None, frame_params = None\<rparr>"

definition let_frame :: "(string \<times> json) list \<Rightarrow> frame" where
  "let_frame b = \<lparr>frame_catch = None, frame_let = Some b, frame_params = None\<rparr>"

definition params_frame :: "json option \<Rightarrow> frame" where
  "params_frame p = \<lparr>frame_catch = None, frame_let = None, frame_params = p\<rparr>"

text \<open>
  \<open>invoke\<close> keeps three variables: \<open>state\<close> (a number, or \<open>undefined\<close> at the end),
  \<open>stack\<close> (newest frame first) and \<open>params\<close>.
\<close>

record config =
  state :: "int option"
  stack :: "frame list"
  params :: "json option"

subsection \<open>inspect\<close>

text \<open>
  \<^verbatim>\<open>while (stack.length > 0) { if (typeof (state = stack.shift().catch) === 'number') break }\<close>
  The first argument is the value of \<open>state\<close> so far.
\<close>

fun unwind :: "int option \<Rightarrow> frame list \<Rightarrow> int option \<times> frame list" where
  "unwind st [] = (st, [])"
| "unwind st (f # fs) = (case frame_catch f of Some n \<Rightarrow> (Some n, fs) | None \<Rightarrow> unwind None fs)"

text \<open>\<open>if (!isObject(params)) params = { value: params }\<close>\<close>

definition wrap :: "json option \<Rightarrow> (string \<times> json) list" where
  "wrap p = (case p of Some (JObj kvs) \<Rightarrow> kvs | _ \<Rightarrow> entry ''value'' p)"

definition inspect :: "config \<Rightarrow> config" where
  "inspect c =
     (let kvs = wrap (params c) in
      case map_of kvs ''error'' of
        None \<Rightarrow> c\<lparr>params := Some (JObj kvs)\<rparr>
      | Some e \<Rightarrow>
          (case unwind None (stack c) of
             (st, fs) \<Rightarrow> c\<lparr>state := st, stack := fs, params := Some (JObj [(''error'', e)])\<rparr>))"


section \<open>Compositions and their compilation (function conductor)\<close>

text \<open>
  The composition is the JSON tree the builder produces: a sequence is an array; the
  other nodes are objects tagged by \<open>type\<close>.  Of \<open>options\<close> the compiler reads
  \<open>nosave\<close> (by truthiness) and \<open>field\<close> (a string, as \<open>retain\<close> checks).  The \<open>exec\<close>
  of a function is the object \<open>{ kind, exec }\<close> with the code as a string; the
  declarations of a \<open>let\<close> are a plain object.
\<close>

record options =
  nosave :: "json option"
  field :: "string option"

datatype exec = Exec string string

datatype composition =
    C_seq "composition list"
  | C_action string
  | C_function exec
  | C_literal json
  | C_finally composition composition
  | C_let "(string \<times> json) list" composition
  | C_retain composition options
  | C_try composition composition
  | C_if composition composition composition options
  | C_while composition composition options

text \<open>A state of the FSM: its \<open>type\<close> with the fields that go with it, \<open>path\<close>, and
  \<open>next\<close> when it has been set.  \<open>S_pop True\<close> is \<open>collect: true\<close>; \<open>S_try 0\<close> is also
  the \<open>try\<close> state before its \<open>catch\<close> is assigned.\<close>

datatype kind =
    S_pass
  | S_action string
  | S_function exec
  | S_literal json
  | S_choice int int
  | S_push "string option"
  | S_pop bool
  | S_let "(string \<times> json) list"
  | S_exit
  | S_try int

record fstate =
  kind :: kind
  path :: string
  "next" :: "int option"

type_synonym fsm = "fstate list"

definition new_state :: "kind \<Rightarrow> string \<Rightarrow> fstate" where
  "new_state k p = \<lparr>kind = k, path = p, next = None\<rparr>"

text \<open>\<open>front.slice(-1)[0].next = n\<close>, a TypeError on an empty array.\<close>

definition set_last_next :: "int \<Rightarrow> fsm \<Rightarrow> exn + fsm" where
  "set_last_next n front =
     (if front = [] then Inl TypeError else Inr (butlast front @ [(last front)\<lparr>next := Some n\<rparr>]))"

text \<open>\<open>fsm[0].catch = n\<close> and \<open>fsm[0].field = f\<close>; the property is read only on a state
  of the matching type.\<close>

definition set_catch :: "int \<Rightarrow> fsm \<Rightarrow> exn + fsm" where
  "set_catch n fsm = (case fsm of
       [] \<Rightarrow> Inl TypeError
     | s # ss \<Rightarrow> Inr (s\<lparr>kind := (case kind s of S_try _ \<Rightarrow> S_try n | k \<Rightarrow> k)\<rparr> # ss))"

definition set_field :: "string \<Rightarrow> fsm \<Rightarrow> exn + fsm" where
  "set_field f fsm = (case fsm of
       [] \<Rightarrow> Inl TypeError
     | s # ss \<Rightarrow> Inr (s\<lparr>kind := (case kind s of S_push _ \<Rightarrow> S_push (Some f) | k \<Rightarrow> k)\<rparr> # ss))"

definition chain :: "fsm \<Rightarrow> fsm \<Rightarrow> exn + fsm" where
  "chain front back = bnd (set_last_next 1 front) (\<lambda>front. Inr (front @ back))"

text \<open>\<open>[first, ...rest].reduce(chain)\<close>\<close>

fun reduce_chain :: "fsm \<Rightarrow> fsm list \<Rightarrow> exn + fsm" where
  "reduce_chain acc [] = Inr acc"
| "reduce_chain acc (x # xs) = bnd (chain acc x) (\<lambda>acc. reduce_chain acc xs)"

fun compile :: "composition \<Rightarrow> string \<Rightarrow> exn + fsm"
  and compile_each :: "composition list \<Rightarrow> nat \<Rightarrow> string \<Rightarrow> exn + fsm list"
where
  "compile (C_seq json) pth =
     (if json = [] then Inr [new_state S_pass pth]
      else bnd (compile_each json 0 pth) (\<lambda>fs.
           case fs of [] \<Rightarrow> Inl TypeError | f # rest \<Rightarrow> reduce_chain f rest))"
| "compile (C_action name) pth = Inr [new_state (S_action name) pth]"
| "compile (C_function e) pth = Inr [new_state (S_function e) pth]"
| "compile (C_literal v) pth = Inr [new_state (S_literal v) pth]"
| "compile (C_finally b f) pth =
     bnd (compile b (pth @ ''.body'')) (\<lambda>body.
     bnd (compile f (pth @ ''.finalizer'')) (\<lambda>finalizer.
     bnd (reduce_chain [new_state (S_try 0) pth] [body, [new_state S_exit pth], finalizer]) (\<lambda>fsm.
     set_catch (int (length fsm) - int (length finalizer)) fsm)))"
| "compile (C_let declarations b) pth =
     bnd (compile b (pth @ ''.body'')) (\<lambda>body.
     reduce_chain [new_state (S_let declarations) pth] [body, [new_state S_exit pth]])"
| "compile (C_retain b opts) pth =
     bnd (compile b (pth @ ''.body'')) (\<lambda>body.
     bnd (reduce_chain [new_state (S_push None) pth] [body, [new_state (S_pop True) pth]]) (\<lambda>fsm.
     case field opts of
       Some f \<Rightarrow> if f \<noteq> [] then set_field f fsm else Inr fsm
     | None \<Rightarrow> Inr fsm))"
| "compile (C_try b h) pth =
     bnd (compile b (pth @ ''.body'')) (\<lambda>body.
     bnd (compile h (pth @ ''.handler'')) (\<lambda>h0.
     bnd (chain h0 [new_state S_pass pth]) (\<lambda>handler.
     bnd (reduce_chain [new_state (S_try 0) pth] [body]) (\<lambda>fsm.
     bnd (set_catch (int (length fsm)) fsm) (\<lambda>fsm.
     bnd (set_last_next (int (length handler)) fsm) (\<lambda>fsm.
     Inr (fsm @ handler)))))))"
| "compile (C_if t c a opts) pth =
     bnd (compile c (pth @ ''.consequent'')) (\<lambda>consequent.
     bnd (compile a (pth @ ''.alternate'')) (\<lambda>a0.
     bnd (chain a0 [new_state S_pass pth]) (\<lambda>alternate.
     bnd (if \<not> truthy (nosave opts) then chain [new_state (S_pop False) pth] consequent
          else Inr consequent) (\<lambda>consequent.
     bnd (if \<not> truthy (nosave opts) then chain [new_state (S_pop False) pth] alternate
          else Inr alternate) (\<lambda>alternate.
     bnd (compile t (pth @ ''.test'')) (\<lambda>test.
     bnd (chain test [new_state (S_choice 1 (int (length consequent) + 1)) pth]) (\<lambda>fsm.
     bnd (if \<not> truthy (nosave opts) then chain [new_state (S_push None) pth] fsm
          else Inr fsm) (\<lambda>fsm.
     bnd (set_last_next (int (length alternate)) consequent) (\<lambda>consequent.
     Inr (fsm @ consequent @ alternate))))))))))"
| "compile (C_while t b opts) pth =
     bnd (compile b (pth @ ''.body'')) (\<lambda>consequent.
     bnd (if \<not> truthy (nosave opts) then chain [new_state (S_pop False) pth] consequent
          else Inr consequent) (\<lambda>consequent.
     bnd (if \<not> truthy (nosave opts) then chain [new_state (S_pop False) pth] [new_state S_pass pth]
          else Inr [new_state S_pass pth]) (\<lambda>alternate.
     bnd (compile t (pth @ '':test'')) (\<lambda>test.
     bnd (chain test [new_state (S_choice 1 (int (length consequent) + 1)) pth]) (\<lambda>fsm.
     bnd (if \<not> truthy (nosave opts) then chain [new_state (S_push None) pth] fsm
          else Inr fsm) (\<lambda>fsm.
     bnd (set_last_next (1 - int (length fsm) - int (length consequent)) consequent) (\<lambda>consequent.
     Inr (fsm @ consequent @ alternate))))))))"
| "compile_each [] index pth = Inr []"
| "compile_each (json # rest) index pth =
     bnd (compile json (pth @ ''['' @ show_nat index @ '']'')) (\<lambda>f.
     bnd (compile_each rest (Suc index) pth) (\<lambda>fs. Inr (f # fs)))"

section \<open>The interpreter (function conductor)\<close>

subsection \<open>Results\<close>

text \<open>
  \<open>invoke\<close> returns a value, returns a rejected promise, or throws.  The rejection
  \<open>{ code, error }\<close> carries a text of the conductor or the message of an exception
  thrown by the engine.  \<open>Not_frames\<close> marks what the model does not follow: a continuation
  whose stack is an array of something other than frames, and a call of \<open>run\<close> that is
  not followed (see there).
\<close>

datatype errtext = Text string | Engine exn

datatype failure = Failure int errtext

datatype result = Return json | Reject failure | Throw exn | Not_frames

datatype progress = Continue config | Done result

text \<open>What \<open>encodeError\<close>, \<open>badRequest\<close> and \<open>internalError\<close> are applied to: a
  string, a \<open>{ code, error }\<close> record, or an exception.\<close>

datatype raised = Message string | Record failure | Exception exn

text \<open>
  \<^verbatim>\<open>code: typeof error.code === 'number' && error.code || 500,
  error: (typeof error.error === 'string' && error.error) || error.message
         || (typeof error === 'string' && error) || 'An internal error occurred'\<close>
\<close>

fun encodeError :: "raised \<Rightarrow> failure" where
  "encodeError (Message s) =
     Failure 500 (Text (if s \<noteq> [] then s else ''An internal error occurred''))"
| "encodeError (Record (Failure code (Text s))) =
     Failure (if code \<noteq> 0 then code else 500)
             (Text (if s \<noteq> [] then s else ''An internal error occurred''))"
| "encodeError (Record (Failure code (Engine x))) =
     Failure (if code \<noteq> 0 then code else 500) (Engine x)"
| "encodeError (Exception x) = Failure 500 (Engine x)"

definition badRequest :: "string \<Rightarrow> result" where
  "badRequest error = Reject (Failure 400 (Text error))"

definition internalError :: "raised \<Rightarrow> result" where
  "internalError error = Reject (encodeError error)"

subsection \<open>run\<close>

text \<open>
  The code of a function state is run by the engine's \<open>eval\<close>, which is a parameter of
  the model.  The engine is given the code and the two objects that the generated
  function receives, \<open>params\<close> and \<open>env\<close>, and the code may change both in place, and
  with them the objects that are the values of \<open>env\<close>: \<open>Object.assign\<close> copies
  references, so these are the very objects that the \<open>let\<close> frames hold.  The engine
  tells

  \<^item> how the call ended (\<open>outcome\<close>): with a throw; with \<open>undefined\<close>, and then what
    \<open>JSON.parse(JSON.stringify(params))\<close> makes of the \<open>params\<close> object as the call left
    it; with a function; or with another value, given by what the same clone makes of
    it.  The clone gives JSON, or it throws: \<open>TypeError\<close> for a value that does not
    serialise (a cycle, a BigInt), \<open>SyntaxError\<close> for one that \<open>JSON.stringify\<close> maps to
    \<open>undefined\<close> (\<open>undefined\<close> itself, a function, a symbol);

  \<^item> the names that \<open>for (const name in env)\<close> lists after the call, each with what
    the clone makes of \<open>env[name]\<close> (\<open>environment\<close>);

  \<^item> for a name of the environment whose value is an object or an array, given with
    that value: the same object after the call, as JSON, and \<open>None\<close> when it does not
    serialise any more (\<open>reached\<close>).
\<close>

datatype returned =
    Threw
  | Returned_undefined "exn + json"
  | Returned_function
  | Returned "exn + json"

record evaluation =
  outcome :: returned
  environment :: "(string \<times> (exn + json)) list"
  reached :: "string \<Rightarrow> json \<Rightarrow> json option"

type_synonym evaluator = "string \<Rightarrow> json option \<Rightarrow> (string \<times> json) list \<Rightarrow> evaluation"

text \<open>\<open>Object.assign(acc, src)\<close>\<close>

fun assign :: "(string \<times> json) list \<Rightarrow> (string \<times> json) list \<Rightarrow> (string \<times> json) list" where
  "assign acc [] = acc"
| "assign acc ((k, v) # src) = assign (put k v acc) src"

text \<open>\<^verbatim>\<open>stack.reduceRight((acc, cur) => typeof cur.let === 'object' ? Object.assign(acc, cur.let) : acc, {})\<close>\<close>

fun collapse :: "frame list \<Rightarrow> (string \<times> json) list" where
  "collapse [] = []"
| "collapse (cur # rest) =
     (case frame_let cur of Some l \<Rightarrow> assign (collapse rest) l | None \<Rightarrow> collapse rest)"

text \<open>
  What the call did in place to the objects of the environment.  The value of a name in
  \<open>env\<close> is that of the frame nearest the top that declares the name, so this binding,
  when it holds an object or an array, holds the object as the call left it; \<open>shadowed\<close>
  lists the names of the frames passed.
\<close>

definition by_reference :: "json \<Rightarrow> bool" where
  "by_reference v = (case v of JObj _ \<Rightarrow> True | JArr _ \<Rightarrow> True | _ \<Rightarrow> False)"

definition touch ::
  "(string \<Rightarrow> json \<Rightarrow> json option) \<Rightarrow> string list \<Rightarrow> (string \<times> json) list \<Rightarrow> (string \<times> json) list" where
  "touch after shadowed l =
     map (\<lambda>(k, v). if k \<notin> set shadowed \<and> by_reference v
                    then (k, case after k v of Some w \<Rightarrow> w | None \<Rightarrow> v)
                    else (k, v)) l"

fun touched :: "(string \<Rightarrow> json \<Rightarrow> json option) \<Rightarrow> string list \<Rightarrow> frame list \<Rightarrow> frame list" where
  "touched after shadowed [] = []"
| "touched after shadowed (f # fs) =
     (case frame_let f of
        None \<Rightarrow> f # touched after shadowed fs
      | Some l \<Rightarrow> f\<lparr>frame_let := Some (touch after shadowed l)\<rparr>
                  # touched after (shadowed @ map fst l) fs)"

text \<open>
  The names that every object inherits from \<open>Object.prototype\<close> (ECMAScript, with its
  annex B).  Each holds a function that an assignment to the same name of the object
  hides by a property of the object.  The accessor \<open>__proto__\<close> is apart: assigning to
  it makes no property.
\<close>

definition object_prototype :: "string list" where
  "object_prototype =
     [''constructor'', ''__defineGetter__'', ''__defineSetter__'', ''hasOwnProperty'',
      ''__lookupGetter__'', ''__lookupSetter__'', ''isPrototypeOf'', ''propertyIsEnumerable'',
      ''toString'', ''valueOf'', ''toLocaleString'']"

text \<open>\<open>typeof element.let[symbol] !== 'undefined'\<close>: the lookup finds a property of the
  object and also an inherited one.\<close>

definition has_symbol :: "(string \<times> json) list \<Rightarrow> string \<Rightarrow> bool" where
  "has_symbol l symbol = (map_of l symbol \<noteq> None \<or> symbol \<in> set object_prototype)"

text \<open>
  \<^verbatim>\<open>const element = stack.find(element => typeof element.let !== 'undefined'
                                        && typeof element.let[symbol] !== 'undefined')
  if (typeof element !== 'undefined') element.let[symbol] = JSON.parse(JSON.stringify(value))\<close>
  The value is given by what the clone makes of it.
\<close>

fun set_symbol :: "string \<Rightarrow> exn + json \<Rightarrow> frame list \<Rightarrow> exn + frame list" where
  "set_symbol symbol v [] = Inr []"
| "set_symbol symbol v (element # rest) =
     (case frame_let element of
        None \<Rightarrow> bnd (set_symbol symbol v rest) (\<lambda>rest. Inr (element # rest))
      | Some l \<Rightarrow>
          if has_symbol l symbol
          then (case v of
                  Inl x \<Rightarrow> Inl x
                | Inr w \<Rightarrow> Inr (element\<lparr>frame_let := Some (put symbol w l)\<rparr> # rest))
          else bnd (set_symbol symbol v rest) (\<lambda>rest. Inr (element # rest)))"

text \<open>\<open>for (const name in env) set(name, env[name])\<close>; a throw ends the loop and
  leaves what was written so far.\<close>

fun write_back ::
  "(string \<times> (exn + json)) list \<Rightarrow> frame list \<Rightarrow> frame list \<times> exn option" where
  "write_back [] st = (st, None)"
| "write_back ((name, v) # rest) st =
     (case set_symbol name v st of
        Inl x \<Rightarrow> (st, Some x)
      | Inr st' \<Rightarrow> write_back rest st')"

text \<open>
  What the model does not follow: a \<open>let\<close> object or an environment with the name
  \<open>__proto__\<close>, where \<open>Object.assign\<close> and \<open>set\<close> go through the accessor of
  \<open>Object.prototype\<close> and change prototypes, and a call that leaves an object of a
  \<open>let\<close> frame in a state that is not JSON.
\<close>

definition proto_free :: "frame list \<Rightarrow> bool" where
  "proto_free st =
     list_all (\<lambda>f. case frame_let f of None \<Rightarrow> True | Some l \<Rightarrow> ''__proto__'' \<notin> set (map fst l)) st"

definition followed :: "evaluation \<Rightarrow> (string \<times> json) list \<Rightarrow> frame list \<Rightarrow> bool" where
  "followed e env st =
     (proto_free st \<and> ''__proto__'' \<notin> set (map fst (environment e))
      \<and> list_all (\<lambda>(k, v). by_reference v \<longrightarrow> reached e k v \<noteq> None) env)"

text \<open>\<open>run(f)\<close> gives the stack after the write-back and the value returned;
  \<open>Threw\<close> also when \<open>set\<close> threw.  \<open>None\<close> is a call that is not followed.\<close>

definition run :: "evaluator \<Rightarrow> string \<Rightarrow> config \<Rightarrow> (frame list \<times> returned) option" where
  "run ev f c =
     (let env = collapse (stack c);
          e = ev f (params c) env
      in if \<not> followed e env (stack c) then None
         else (case write_back (environment e) (touched (reached e) [] (stack c)) of
                 (st, None) \<Rightarrow> Some (st, outcome e)
               | (st, Some x) \<Rightarrow> Some (st, Threw)))"

text \<open>\<open>JSON.parse(JSON.stringify(params))\<close> after a call that returned \<open>undefined\<close>:
  only an object or an array can have been changed by the call.\<close>

definition clone_params :: "json option \<Rightarrow> exn + json \<Rightarrow> exn + json" where
  "clone_params p after = (case p of
       None \<Rightarrow> Inl SyntaxError
     | Some (JObj _) \<Rightarrow> after
     | Some (JArr _) \<Rightarrow> after
     | Some v \<Rightarrow> Inr v)"

subsection \<open>One state\<close>

text \<open>The frames as JSON, for the continuation, and back.\<close>

definition encode_frame :: "frame \<Rightarrow> json" where
  "encode_frame f = JObj (entry ''catch'' (map_option JNum (frame_catch f))
                        @ entry ''let'' (map_option JObj (frame_let f))
                        @ entry ''params'' (frame_params f))"

definition decode_frame :: "json \<Rightarrow> frame option" where
  "decode_frame j = (case j of
       JObj kvs \<Rightarrow>
         if \<not> set (map fst kvs) \<subseteq> {''catch'', ''let'', ''params''} then None
         else (case (map_of kvs ''catch'', map_of kvs ''let'') of
                 (Some (JNum n), Some (JObj l)) \<Rightarrow>
                    Some \<lparr>frame_catch = Some n, frame_let = Some l, frame_params = map_of kvs ''params''\<rparr>
               | (Some (JNum n), None) \<Rightarrow>
                    Some \<lparr>frame_catch = Some n, frame_let = None, frame_params = map_of kvs ''params''\<rparr>
               | (None, Some (JObj l)) \<Rightarrow>
                    Some \<lparr>frame_catch = None, frame_let = Some l, frame_params = map_of kvs ''params''\<rparr>
               | (None, None) \<Rightarrow>
                    Some \<lparr>frame_catch = None, frame_let = None, frame_params = map_of kvs ''params''\<rparr>
               | _ \<Rightarrow> None)
     | _ \<Rightarrow> None)"

fun decode_stack :: "json list \<Rightarrow> frame list option" where
  "decode_stack [] = Some []"
| "decode_stack (j # js) = (case decode_frame j of
       None \<Rightarrow> None
     | Some f \<Rightarrow> map_option ((#) f) (decode_stack js))"

text \<open>\<open>{ action: json.name, params, state: { $resume: { state, stack } } }\<close>\<close>

definition continuation :: "string \<Rightarrow> config \<Rightarrow> json" where
  "continuation name c =
     JObj ([(''action'', JStr name)] @ entry ''params'' (params c)
           @ [(''state'', JObj [(''$resume'',
                 JObj (entry ''state'' (map_option JNum (state c))
                       @ [(''stack'', JArr (map encode_frame (stack c)))]))])])"

text \<open>
  The body of the loop for a defined \<open>state\<close>, here \<open>current\<close>.  \<open>fsm[state]\<close> is
  \<open>undefined\<close> outside the array, and reading its \<open>next\<close> throws.
\<close>

definition step :: "fsm \<Rightarrow> evaluator \<Rightarrow> int \<Rightarrow> config \<Rightarrow> progress" where
  "step fsm ev current c0 =
     (if current < 0 \<or> int (length fsm) \<le> current then Done (Throw TypeError)
      else
        let json = fsm ! nat current;
            c = c0\<lparr>state := map_option (\<lambda>n. current + n) (next json)\<rparr>
        in case kind json of
          S_choice t e \<Rightarrow>
            (case getp (params c) ''value'' of
               Inl x \<Rightarrow> Done (Throw x)
             | Inr v \<Rightarrow> Continue (c\<lparr>state := Some (current + (if truthy v then t else e))\<rparr>))
        | S_try k \<Rightarrow> Continue (c\<lparr>stack := catch_frame (current + k) # stack c\<rparr>)
        | S_let l \<Rightarrow> Continue (c\<lparr>stack := let_frame l # stack c\<rparr>)
        | S_exit \<Rightarrow>
            (case stack c of
               [] \<Rightarrow> Done (internalError (Message
                       (''State '' @ show_int current @ '' attempted to pop from an empty stack'')))
             | _ # rest \<Rightarrow> Continue (c\<lparr>stack := rest\<rparr>))
        | S_push fld \<Rightarrow>
            (case (case fld of
                     Some f \<Rightarrow> if f \<noteq> [] then read_field (params c) f else Inr (params c)
                   | None \<Rightarrow> Inr (params c)) of
               Inl x \<Rightarrow> Done (Throw x)
             | Inr v \<Rightarrow> Continue (c\<lparr>stack := params_frame v # stack c\<rparr>))
        | S_pop collect \<Rightarrow>
            (case stack c of
               [] \<Rightarrow> Done (internalError (Message
                       (''State '' @ show_int current @ '' attempted to pop from an empty stack'')))
             | f # rest \<Rightarrow>
                 Continue (c\<lparr>stack := rest,
                              params := (if collect
                                         then Some (JObj (entry ''params'' (frame_params f)
                                                          @ entry ''result'' (params c)))
                                         else frame_params f)\<rparr>))
        | S_action name \<Rightarrow> Done (Return (continuation name c))
        | S_literal v \<Rightarrow> Continue (inspect (c\<lparr>params := Some v\<rparr>))
        | S_function e \<Rightarrow>
            (case e of Exec k code \<Rightarrow>
               (case run ev code c of
                  None \<Rightarrow> Done Not_frames
                | Some (st, r) \<Rightarrow>
                    (case (case r of
                             Threw \<Rightarrow> Inr (JObj [(''error'', JStr (''An exception was caught at state ''
                                         @ show_int current @ '' (see log for details)''))])
                           | Returned_function \<Rightarrow> Inr (JObj [(''error'', JStr (''State ''
                                         @ show_int current @ '' evaluated to a function''))])
                           | Returned_undefined after \<Rightarrow> clone_params (params c) after
                           | Returned v \<Rightarrow> v) of
                       Inl x \<Rightarrow> Done (Throw x)
                     | Inr v \<Rightarrow> Continue (inspect (c\<lparr>stack := st, params := Some v\<rparr>)))))
        | S_pass \<Rightarrow> Continue (inspect c))"

subsection \<open>invoke\<close>

text \<open>The final state: \<open>if (params.error) return params; else return { params }\<close>\<close>

definition finish :: "config \<Rightarrow> result" where
  "finish c = (case getp (params c) ''error'' of
       Inl x \<Rightarrow> Throw x
     | Inr e \<Rightarrow> if truthy e then (case params c of Some p \<Rightarrow> Return p | None \<Rightarrow> Throw TypeError)
               else Return (JObj (entry ''params'' (params c))))"

text \<open>The start of \<open>invoke\<close>: state 0 and an empty stack, or the state and stack of
  \<open>$resume\<close> followed by inspect.\<close>

definition resume_stack :: "json \<Rightarrow> int option \<Rightarrow> json option \<Rightarrow> result + config" where
  "resume_stack p st stk = (case stk of
       Some (JArr fs) \<Rightarrow>
         (case decode_stack fs of
            None \<Rightarrow> Inl Not_frames
          | Some frames \<Rightarrow>
              Inr (inspect \<lparr>state = st, stack = frames,
                            params = Some (case p of JObj kvs \<Rightarrow> JObj (filter (\<lambda>kv. fst kv \<noteq> ''$resume'') kvs)
                                                  | _ \<Rightarrow> p)\<rparr>))
     | _ \<Rightarrow> Inl (badRequest ''The type of $resume.stack must be an array''))"

definition resume :: "json \<Rightarrow> result + config" where
  "resume p = (case getp (Some p) ''$resume'' of
       Inl x \<Rightarrow> Inl (Throw x)
     | Inr None \<Rightarrow> Inr \<lparr>state = Some 0, stack = [], params = Some p\<rparr>
     | Inr (Some r) \<Rightarrow>
         (case r of
            JObj kvs \<Rightarrow>
              (case map_of kvs ''state'' of
                 Some (JNum n) \<Rightarrow> resume_stack p (Some n) (map_of kvs ''stack'')
               | None \<Rightarrow> resume_stack p None (map_of kvs ''stack'')
               | Some _ \<Rightarrow> Inl (badRequest ''The type of optional $resume.state parameter must be number''))
          | _ \<Rightarrow> Inl (badRequest ''The type of optional $resume parameter must be object'')))"

partial_function (option) loop :: "fsm \<Rightarrow> evaluator \<Rightarrow> config \<Rightarrow> result option" where
  "loop fsm ev c = (case state c of
       None \<Rightarrow> Some (finish c)
     | Some current \<Rightarrow>
         (case step fsm ev current c of
            Done r \<Rightarrow> Some r
          | Continue c' \<Rightarrow> loop fsm ev c'))"

declare loop.simps [code]

definition invoke :: "fsm \<Rightarrow> evaluator \<Rightarrow> json \<Rightarrow> result option" where
  "invoke fsm ev p = (case resume p of Inl r \<Rightarrow> Some r | Inr c \<Rightarrow> loop fsm ev c)"

text \<open>\<open>params => Promise.resolve().then(() => invoke(params)).catch(internalError)\<close>:
  \<open>Return\<close> is the promise resolved, \<open>Reject\<close> the promise rejected.\<close>

definition settle :: "result \<Rightarrow> result" where
  "settle r = (case r of
       Reject f \<Rightarrow> internalError (Record f)
     | Throw x \<Rightarrow> internalError (Exception x)
     | _ \<Rightarrow> r)"

text \<open>\<open>conductor(composition)\<close> compiles once and answers each request.\<close>

definition conductor :: "composition \<Rightarrow> evaluator \<Rightarrow> json \<Rightarrow> result option" where
  "conductor composition ev p = (case compile composition [] of
       Inl x \<Rightarrow> Some (Throw x)
     | Inr fsm \<Rightarrow> map_option settle (invoke fsm ev p))"

section \<open>The pointer variant (__init__ and main in composer.js)\<close>

subsection \<open>__init__\<close>

text \<open>
  Here the compiler links state objects: \<open>next\<close>, \<open>then\<close>, \<open>else\<close> and \<open>catch\<close> hold
  the target object, and \<open>__init__\<close> replaces each by its index in the array at the end.
  Every object the compiler creates gets a number of its own (\<open>ident\<close>, taken from a
  counter that the functions pass along), and a link is the number of its target; after
  \<open>__init__\<close> the same fields hold indices.  \<open>P_let\<close> holds the declarations, or what
  \<open>__init__\<close> put in their place.
\<close>

datatype pkind =
    P_pass
  | P_action string
  | P_function exec
  | P_literal json
  | P_choice int int
  | P_push "string option"
  | P_pop bool
  | P_let json
  | P_exit
  | P_try int

record pstate =
  ident :: nat
  ptype :: pkind
  ppath :: string
  pnext :: "int option"

definition new_object :: "pkind \<Rightarrow> string \<Rightarrow> nat \<Rightarrow> pstate \<times> nat" where
  "new_object k p n = (\<lparr>ident = n, ptype = k, ppath = p, pnext = None\<rparr>, Suc n)"

text \<open>\<open>fsm.states[0]\<close> and \<open>fsm.last()\<close> as links.  On an empty array JavaScript
  yields \<open>undefined\<close>, and a link that is \<open>undefined\<close> makes \<open>__init__\<close> throw when it
  reads the \<open>type\<close> of the target; the throw is placed here.\<close>

definition first_ptr :: "pstate list \<Rightarrow> exn + int" where
  "first_ptr fsm = (case fsm of [] \<Rightarrow> Inl TypeError | s # _ \<Rightarrow> Inr (int (ident s)))"

definition last_ptr :: "pstate list \<Rightarrow> exn + int" where
  "last_ptr fsm = (if fsm = [] then Inl TypeError else Inr (int (ident (last fsm))))"

text \<open>\<open>fsm.last().next = target\<close>\<close>

definition set_last_next_ptr :: "int \<Rightarrow> pstate list \<Rightarrow> exn + pstate list" where
  "set_last_next_ptr target fsm =
     (if fsm = [] then Inl TypeError else Inr (butlast fsm @ [(last fsm)\<lparr>pnext := Some target\<rparr>]))"

definition set_field_ptr :: "string \<Rightarrow> pstate list \<Rightarrow> exn + pstate list" where
  "set_field_ptr f fsm = (case fsm of
       [] \<Rightarrow> Inl TypeError
     | s # ss \<Rightarrow> Inr (s\<lparr>ptype := (case ptype s of P_push _ \<Rightarrow> P_push (Some f) | k \<Rightarrow> k)\<rparr> # ss))"

text \<open>\<^verbatim>\<open>front.last().next = back.states[0]; front.states.push(...back.states)\<close>\<close>

definition chain_ptr :: "pstate list \<Rightarrow> pstate list \<Rightarrow> exn + pstate list" where
  "chain_ptr front back =
     bnd (first_ptr back) (\<lambda>target.
     bnd (set_last_next_ptr target front) (\<lambda>front. Inr (front @ back)))"

fun reduce_chain_ptr :: "pstate list \<Rightarrow> pstate list list \<Rightarrow> exn + pstate list" where
  "reduce_chain_ptr acc [] = Inr acc"
| "reduce_chain_ptr acc (x # xs) = bnd (chain_ptr acc x) (\<lambda>acc. reduce_chain_ptr acc xs)"

fun compile_ptr :: "composition \<Rightarrow> string \<Rightarrow> nat \<Rightarrow> exn + (pstate list \<times> nat)"
  and compile_each_ptr :: "composition list \<Rightarrow> nat \<Rightarrow> string \<Rightarrow> nat \<Rightarrow> exn + (pstate list list \<times> nat)"
where
  "compile_ptr (C_seq json) pth n =
     (if json = [] then (case new_object P_pass pth n of (s, n) \<Rightarrow> Inr ([s], n))
      else bnd (compile_each_ptr json 0 pth n) (\<lambda>(fs, n).
           case fs of [] \<Rightarrow> Inl TypeError
                    | f # rest \<Rightarrow> bnd (reduce_chain_ptr f rest) (\<lambda>fsm. Inr (fsm, n))))"
| "compile_ptr (C_action name) pth n = (case new_object (P_action name) pth n of (s, n) \<Rightarrow> Inr ([s], n))"
| "compile_ptr (C_function e) pth n = (case new_object (P_function e) pth n of (s, n) \<Rightarrow> Inr ([s], n))"
| "compile_ptr (C_literal v) pth n = (case new_object (P_literal v) pth n of (s, n) \<Rightarrow> Inr ([s], n))"
| "compile_ptr (C_finally b f) pth n =
     bnd (compile_ptr b (pth @ '':1'') n) (\<lambda>(body, n).
     bnd (compile_ptr f (pth @ '':2'') n) (\<lambda>(finalizer, n).
     bnd (first_ptr finalizer) (\<lambda>target.
     case new_object (P_try target) pth n of (try, n) \<Rightarrow>
     case new_object P_exit pth n of (exit, n) \<Rightarrow>
     bnd (reduce_chain_ptr [try] [body, [exit], finalizer]) (\<lambda>fsm. Inr (fsm, n)))))"
| "compile_ptr (C_let declarations b) pth n =
     bnd (compile_ptr b (pth @ '':1'') n) (\<lambda>(body, n).
     case new_object (P_let (JObj declarations)) pth n of (lt, n) \<Rightarrow>
     case new_object P_exit pth n of (exit, n) \<Rightarrow>
     bnd (reduce_chain_ptr [lt] [body, [exit]]) (\<lambda>fsm. Inr (fsm, n)))"
| "compile_ptr (C_retain b opts) pth n =
     bnd (compile_ptr b (pth @ '':1'') n) (\<lambda>(body, n).
     case new_object (P_push None) pth n of (push, n) \<Rightarrow>
     case new_object (P_pop True) pth n of (pop, n) \<Rightarrow>
     bnd (reduce_chain_ptr [push] [body, [pop]]) (\<lambda>fsm.
     bnd (case field opts of
            Some f \<Rightarrow> if f \<noteq> [] then set_field_ptr f fsm else Inr fsm
          | None \<Rightarrow> Inr fsm) (\<lambda>fsm. Inr (fsm, n))))"
| "compile_ptr (C_try b h) pth n =
     bnd (compile_ptr b (pth @ '':1'') n) (\<lambda>(body, n).
     bnd (compile_ptr h (pth @ '':2'') n) (\<lambda>(h0, n).
     case new_object P_pass pth n of (pass, n) \<Rightarrow>
     bnd (chain_ptr h0 [pass]) (\<lambda>handler.
     bnd (first_ptr handler) (\<lambda>target.
     case new_object (P_try target) pth n of (try, n) \<Rightarrow>
     bnd (reduce_chain_ptr [try] [body]) (\<lambda>fsm.
     bnd (last_ptr handler) (\<lambda>l.
     bnd (set_last_next_ptr l fsm) (\<lambda>fsm.
     Inr (fsm @ handler, n))))))))"
| "compile_ptr (C_if t c a opts) pth n =
     bnd (compile_ptr c (pth @ '':2'') n) (\<lambda>(consequent, n).
     bnd (compile_ptr a (pth @ '':3'') n) (\<lambda>(a0, n).
     case new_object P_pass pth n of (pass, n) \<Rightarrow>
     bnd (chain_ptr a0 [pass]) (\<lambda>alternate.
     bnd (if \<not> truthy (nosave opts)
          then (case new_object (P_pop False) pth n of (pop, n) \<Rightarrow>
                  bnd (chain_ptr [pop] consequent) (\<lambda>x. Inr (x, n)))
          else Inr (consequent, n)) (\<lambda>(consequent, n).
     bnd (if \<not> truthy (nosave opts)
          then (case new_object (P_pop False) pth n of (pop, n) \<Rightarrow>
                  bnd (chain_ptr [pop] alternate) (\<lambda>x. Inr (x, n)))
          else Inr (alternate, n)) (\<lambda>(alternate, n).
     bnd (compile_ptr t (pth @ '':1'') n) (\<lambda>(test, n).
     bnd (first_ptr consequent) (\<lambda>th.
     bnd (first_ptr alternate) (\<lambda>el.
     case new_object (P_choice th el) pth n of (choice, n) \<Rightarrow>
     bnd (chain_ptr test [choice]) (\<lambda>fsm.
     bnd (if \<not> truthy (nosave opts)
          then (case new_object (P_push None) pth n of (push, n) \<Rightarrow>
                  bnd (chain_ptr [push] fsm) (\<lambda>x. Inr (x, n)))
          else Inr (fsm, n)) (\<lambda>(fsm, n).
     bnd (last_ptr alternate) (\<lambda>l.
     bnd (set_last_next_ptr l consequent) (\<lambda>consequent.
     Inr (fsm @ consequent @ alternate, n)))))))))))))"
| "compile_ptr (C_while t b opts) pth n =
     bnd (compile_ptr b (pth @ '':2'') n) (\<lambda>(consequent, n).
     case new_object P_pass pth n of (pass, n) \<Rightarrow>
     bnd (if \<not> truthy (nosave opts)
          then (case new_object (P_pop False) pth n of (pop, n) \<Rightarrow>
                  bnd (chain_ptr [pop] consequent) (\<lambda>x. Inr (x, n)))
          else Inr (consequent, n)) (\<lambda>(consequent, n).
     bnd (if \<not> truthy (nosave opts)
          then (case new_object (P_pop False) pth n of (pop, n) \<Rightarrow>
                  bnd (chain_ptr [pop] [pass]) (\<lambda>x. Inr (x, n)))
          else Inr ([pass], n)) (\<lambda>(alternate, n).
     bnd (compile_ptr t (pth @ '':1'') n) (\<lambda>(test, n).
     bnd (first_ptr consequent) (\<lambda>th.
     bnd (first_ptr alternate) (\<lambda>el.
     case new_object (P_choice th el) pth n of (choice, n) \<Rightarrow>
     bnd (chain_ptr test [choice]) (\<lambda>fsm.
     bnd (if \<not> truthy (nosave opts)
          then (case new_object (P_push None) pth n of (push, n) \<Rightarrow>
                  bnd (chain_ptr [push] fsm) (\<lambda>x. Inr (x, n)))
          else Inr (fsm, n)) (\<lambda>(fsm, n).
     bnd (first_ptr fsm) (\<lambda>l.
     bnd (set_last_next_ptr l consequent) (\<lambda>consequent.
     Inr (fsm @ consequent @ alternate, n)))))))))))"
| "compile_each_ptr [] index pth n = Inr ([], n)"
| "compile_each_ptr (json # rest) index pth n =
     bnd (compile_ptr json (pth @ '':'' @ show_nat index) n) (\<lambda>(f, n).
     bnd (compile_each_ptr rest (Suc index) pth n) (\<lambda>(fs, n). Inr (f # fs, n)))"

text \<open>\<open>fsm.states.indexOf(target)\<close>, \<open>-1\<close> when the target is not in the array.\<close>

fun indexOf :: "pstate list \<Rightarrow> int \<Rightarrow> int" where
  "indexOf [] target = - 1"
| "indexOf (s # ss) target =
     (if int (ident s) = target then 0
      else (let i = indexOf ss target in if i < 0 then - 1 else i + 1))"

text \<open>
  \<^verbatim>\<open>Object.keys(state).forEach(key => {
      if (state[key].type) state[key] = fsm.states.indexOf(state[key]) })\<close>
  A link has a \<open>type\<close> and becomes an index.  The test also meets the data of the state:
  reading \<open>type\<close> of a \<open>null\<close> value throws, and a value or a declarations object with a
  truthy \<open>type\<close> entry of its own is replaced by \<open>-1\<close>.
\<close>

definition relink_data :: "json \<Rightarrow> exn + json" where
  "relink_data v = (case getp (Some v) ''type'' of
       Inl x \<Rightarrow> Inl x
     | Inr t \<Rightarrow> Inr (if truthy t then JNum (- 1) else v))"

definition relink :: "pstate list \<Rightarrow> pstate \<Rightarrow> exn + pstate" where
  "relink states s =
     bnd (case ptype s of
            P_literal v \<Rightarrow> bnd (relink_data v) (\<lambda>v. Inr (P_literal v))
          | P_let l \<Rightarrow> bnd (relink_data l) (\<lambda>l. Inr (P_let l))
          | P_choice th el \<Rightarrow> Inr (P_choice (indexOf states th) (indexOf states el))
          | P_try c \<Rightarrow> Inr (P_try (indexOf states c))
          | k \<Rightarrow> Inr k) (\<lambda>k.
     Inr (s\<lparr>ptype := k, pnext := map_option (indexOf states) (pnext s)\<rparr>))"

fun relink_all :: "pstate list \<Rightarrow> pstate list \<Rightarrow> exn + pstate list" where
  "relink_all states [] = Inr []"
| "relink_all states (s # ss) =
     bnd (relink states s) (\<lambda>s. bnd (relink_all states ss) (\<lambda>ss. Inr (s # ss)))"

definition init :: "composition \<Rightarrow> exn + pstate list" where
  "init composition =
     bnd (compile_ptr composition [] 0) (\<lambda>(fsm, n). relink_all fsm fsm)"

subsection \<open>main\<close>

text \<open>
  The body of the loop of \<open>main\<close> for a defined \<open>state\<close>.  The targets are indices, a
  state outside the array is a bad request, and so is every other check.  Here a
  \<open>let\<close> state puts the declarations object of the FSM itself on the stack and a
  \<open>literal\<close> state makes \<open>params\<close> the value object of the FSM itself, without a clone,
  and the code of a \<open>function\<close> state receives these objects and may write into them,
  as \<open>set\<close> does.  The effect of \<open>let\<close> and \<open>function\<close> states so reaches beyond state,
  stack and params, into the FSM; they are not followed (\<open>Not_followed\<close>).
\<close>

datatype progress_ptr = Continue_ptr config | Done_ptr result | Not_followed

definition main_step :: "pstate list \<Rightarrow> int \<Rightarrow> config \<Rightarrow> progress_ptr" where
  "main_step states current c0 =
     (if current < 0 \<or> int (length states) \<le> current
      then Done_ptr (badRequest (''State '' @ show_int current @ '' definition is missing''))
      else
        let json = states ! nat current;
            c = c0\<lparr>state := pnext json\<rparr>
        in case ptype json of
          P_choice th el \<Rightarrow>
            (case getp (params c) ''value'' of
               Inl x \<Rightarrow> Done_ptr (Throw x)
             | Inr v \<Rightarrow> Continue_ptr (c\<lparr>state := Some (if v = Some (JBool True) then th else el)\<rparr>))
        | P_try k \<Rightarrow> Continue_ptr (c\<lparr>stack := catch_frame k # stack c\<rparr>)
        | P_let l \<Rightarrow> Not_followed
        | P_exit \<Rightarrow>
            (case stack c of
               [] \<Rightarrow> Done_ptr (badRequest
                       (''State '' @ show_int current @ '' attempted to pop from an empty stack''))
             | _ # rest \<Rightarrow> Continue_ptr (c\<lparr>stack := rest\<rparr>))
        | P_push fld \<Rightarrow>
            (case (case fld of
                     Some f \<Rightarrow> if f \<noteq> [] then read_field (params c) f else Inr (params c)
                   | None \<Rightarrow> Inr (params c)) of
               Inl x \<Rightarrow> Done_ptr (Throw x)
             | Inr v \<Rightarrow> Continue_ptr (c\<lparr>stack := params_frame v # stack c\<rparr>))
        | P_pop collect \<Rightarrow>
            (case stack c of
               [] \<Rightarrow> Done_ptr (badRequest
                       (''State '' @ show_int current @ '' attempted to pop from an empty stack''))
             | f # rest \<Rightarrow>
                 Continue_ptr (c\<lparr>stack := rest,
                                  params := (if collect
                                             then Some (JObj (entry ''params'' (frame_params f)
                                                              @ entry ''result'' (params c)))
                                             else frame_params f)\<rparr>))
        | P_action name \<Rightarrow> Done_ptr (Return (continuation name c))
        | P_literal v \<Rightarrow> Continue_ptr (inspect (c\<lparr>params := Some v\<rparr>))
        | P_function e \<Rightarrow> Not_followed
        | P_pass \<Rightarrow> Continue_ptr (inspect c))"

section \<open>The environment and the write-back by their outcome\<close>

text \<open>
  The specification describes the environment of a function state by its outcome, not by
  the loops of \<open>run\<close>: a name has the value of the topmost frame that declares it
  (\<open>declared\<close>).  \<open>written\<close> describes in the same way, frame by frame, what the
  write-back of \<open>run\<close> leaves, for a map \<open>g\<close> from the names that are written to their
  values.  \<open>shadowed\<close> lists the names that frames nearer the top have: those they
  declare and, after the first \<open>let\<close> frame, those of \<open>Object.prototype\<close>.  A binding of
  a frame takes the value of its name unless the name is shadowed (\<open>rebind\<close>), and the
  frame receives the names of \<open>Object.prototype\<close> that are written, not shadowed and not
  declared by it, in the order of the environment (\<open>inherited_writes\<close>).
\<close>

text \<open>An object has each name once.\<close>

definition frames_ok :: "frame list \<Rightarrow> bool" where
  "frames_ok st = (\<forall>f \<in> set st. \<forall>l. frame_let f = Some l \<longrightarrow> distinct (map fst l))"

fun declared :: "frame list \<Rightarrow> string \<Rightarrow> json option" where
  "declared [] name = None"
| "declared (f # fs) name =
     (case frame_let f of
        None \<Rightarrow> declared fs name
      | Some l \<Rightarrow> (case map_of l name of Some v \<Rightarrow> Some v | None \<Rightarrow> declared fs name))"

definition rebind ::
  "(string \<Rightarrow> json option) \<Rightarrow> string list \<Rightarrow> (string \<times> json) list \<Rightarrow> (string \<times> json) list" where
  "rebind g shadowed l =
     map (\<lambda>(k, v). if k \<in> set shadowed then (k, v)
                    else (k, case g k of Some x \<Rightarrow> x | None \<Rightarrow> v)) l"

definition inherited_writes ::
  "(string \<Rightarrow> json option) \<Rightarrow> string list \<Rightarrow> string list \<Rightarrow> (string \<times> json) list
     \<Rightarrow> (string \<times> json) list" where
  "inherited_writes g names shadowed l =
     concat (map (\<lambda>n. case g n of
                         None \<Rightarrow> []
                       | Some x \<Rightarrow> if n \<in> set object_prototype \<and> n \<notin> set shadowed
                                      \<and> n \<notin> set (map fst l)
                                   then [(n, x)] else []) names)"

fun written ::
  "(string \<Rightarrow> json option) \<Rightarrow> string list \<Rightarrow> string list \<Rightarrow> frame list \<Rightarrow> frame list" where
  "written g names shadowed [] = []"
| "written g names shadowed (f # fs) =
     (case frame_let f of
        None \<Rightarrow> f # written g names shadowed fs
      | Some l \<Rightarrow>
          f\<lparr>frame_let := Some (rebind g shadowed l @ inherited_writes g names shadowed l)\<rparr>
          # written g names (shadowed @ map fst l @ object_prototype) fs)"

text \<open>
  The names that are written: those that the environment lists before the first name
  whose write throws, which is a name that some \<open>let\<close> frame has and whose value does not
  serialise; \<open>serialised\<close> gives their values.
\<close>

definition matched :: "frame list \<Rightarrow> string \<Rightarrow> bool" where
  "matched st n = list_ex (\<lambda>f. case frame_let f of None \<Rightarrow> False | Some l \<Rightarrow> has_symbol l n) st"

definition succeeds :: "frame list \<Rightarrow> string \<times> (exn + json) \<Rightarrow> bool" where
  "succeeds st nv = (case snd nv of Inr _ \<Rightarrow> True | Inl _ \<Rightarrow> \<not> matched st (fst nv))"

definition serialised :: "(string \<times> (exn + json)) list \<Rightarrow> string \<Rightarrow> json option" where
  "serialised fin n = (case map_of fin n of Some (Inr x) \<Rightarrow> Some x | _ \<Rightarrow> None)"

section \<open>Example compositions\<close>

text \<open>A node without \<open>options\<close>.\<close>

definition no_options :: options where
  "no_options = \<lparr>nosave = None, field = None\<rparr>"

text \<open>\<open>if(literal({value: 1}), seq(literal('yes'), literal('done')), literal('no'))\<close>\<close>

definition if_example :: composition where
  "if_example = C_if (C_literal (JObj [(''value'', JNum 1)]))
                     (C_seq [C_literal (JStr ''yes''), C_literal (JStr ''done'')])
                     (C_literal (JStr ''no'')) no_options"

text \<open>\<open>let({}, seq())\<close>, \<open>retain(seq())\<close> and \<open>while(literal(true), literal(1))\<close>\<close>

definition let_example :: composition where
  "let_example = C_let [] (C_seq [])"

definition retain_example :: composition where
  "retain_example = C_retain (C_seq []) no_options"

definition while_example :: composition where
  "while_example = C_while (C_literal (JBool True)) (C_literal (JNum 1)) no_options"

text \<open>The states of a compilation that did not throw.\<close>

definition states_of :: "exn + 'a list \<Rightarrow> 'a list" where
  "states_of r = (case r of Inr fsm \<Rightarrow> fsm | Inl _ \<Rightarrow> [])"



text \<open>An engine whose every call throws and changes nothing, for results that do not
  depend on it.\<close>

definition no_eval :: evaluator where
  "no_eval f p env =
     \<lparr>outcome = Threw, environment = map (\<lambda>(k, v). (k, Inr v)) env, reached = (\<lambda>k v. Some v)\<rparr>"

text \<open>
  \<open>let({toString: 1}, let({a: 1}, function('() => { toString = 2 }')),
  function('() => toString'))\<close> and an engine that runs these two pieces of code: the
  first sets the variable and returns nothing, the second returns the value of the
  variable.
\<close>

definition shadow_example :: composition where
  "shadow_example =
     C_let [(''toString'', JNum 1)]
       (C_seq [C_let [(''a'', JNum 1)]
                 (C_seq [C_function (Exec ''nodejs:default'' ''() => { toString = 2 }'')]),
               C_function (Exec ''nodejs:default'' ''() => toString'')])"

definition shadow_eval :: evaluator where
  "shadow_eval f p env =
     (if f = ''() => { toString = 2 }''
      then \<lparr>outcome = Returned_undefined (case p of Some v \<Rightarrow> Inr v | None \<Rightarrow> Inl SyntaxError),
            environment = map (\<lambda>(k, v). (k, Inr (if k = ''toString'' then JNum 2 else v))) env,
            reached = (\<lambda>k v. Some v)\<rparr>
      else \<lparr>outcome = (case map_of env ''toString'' of
                          Some v \<Rightarrow> Returned (Inr v)
                        | None \<Rightarrow> Returned_function),
            environment = map (\<lambda>(k, v). (k, Inr v)) env,
            reached = (\<lambda>k v. Some v)\<rparr>)"





section \<open>Properties of inspect\<close>

lemma wrap_obj [simp]: "wrap (Some (JObj kvs)) = kvs"
  by (simp add: wrap_def)

lemma inspect_params_obj: "\<exists>kvs. params (inspect c) = Some (JObj kvs)"
  by (auto simp: inspect_def Let_def split: option.splits prod.splits)

lemma inspect_no_error_fixed:
  assumes "params c1 = Some (JObj kvs)" and "map_of kvs ''error'' = None"
  shows "inspect c1 = c1"
  using assms by (simp add: inspect_def)

lemma inspect_error_shape:
  assumes "params (inspect c) = Some (JObj kvs)" and "map_of kvs ''error'' = Some e"
  shows "kvs = [(''error'', e)]"
  using assms
  by (auto simp: inspect_def Let_def split: option.splits prod.splits if_splits)

lemma unwind_no_catch:
  "\<forall>g \<in> set fs. frame_catch g = None \<Longrightarrow> unwind None fs = (None, [])"
  by (induction fs) auto

lemma unwind_to_catch:
  "\<forall>g \<in> set pre. frame_catch g = None \<Longrightarrow> frame_catch f = Some n \<Longrightarrow>
   unwind st (pre @ f # rest) = (Some n, rest)"
  by (induction pre arbitrary: st) auto

lemma inspect_error_catch:
  assumes "map_of (wrap (params c)) ''error'' = Some e"
    and "stack c = pre @ f # rest" and "\<forall>g \<in> set pre. frame_catch g = None" and "frame_catch f = Some n"
  shows "inspect c = c\<lparr>state := Some n, stack := rest, params := Some (JObj [(''error'', e)])\<rparr>"
  using assms by (simp add: inspect_def unwind_to_catch)

lemma inspect_error_no_catch:
  assumes "map_of (wrap (params c)) ''error'' = Some e"
    and "\<forall>g \<in> set (stack c). frame_catch g = None"
  shows "inspect c = c\<lparr>state := None, stack := [], params := Some (JObj [(''error'', e)])\<rparr>"
  using assms by (simp add: inspect_def unwind_no_catch)

lemma unwind_shorter:
  "fs \<noteq> [] \<Longrightarrow> length (snd (unwind st fs)) < length fs"
proof (induction fs arbitrary: st)
  case Nil
  then show ?case by simp
next
  case (Cons f fs)
  show ?case
  proof (cases "frame_catch f")
    case (Some n)
    then show ?thesis by simp
  next
    case None
    show ?thesis
    proof (cases "fs = []")
      case True
      with None show ?thesis by simp
    next
      case False
      from Cons.IH [OF False, of None] None show ?thesis by simp
    qed
  qed
qed

lemma unwind_changes:
  "unwind None rest \<noteq> (Some n, rest)"
proof (cases "rest = []")
  case True
  then show ?thesis by simp
next
  case False
  from unwind_shorter [OF False, of None] show ?thesis by auto
qed

text \<open>
  Claim C6 (as amended).  A second run of inspect leaves \<open>params\<close> as the first run
  made it.  The whole triple is unchanged when \<open>params\<close> has no \<open>error\<close> field after
  the first run, and also when the first run ended with an empty stack and an undefined
  state.  When the first run stopped at a frame with a numeric \<open>catch\<close>, a second run
  is not equivalent to one run: with \<open>rest\<close> the frames below the catch frame, the
  first run leaves the state at the catch target and the stack at \<open>rest\<close>, and the
  second run drops that target and unwinds \<open>rest\<close>: it leaves the target of the next
  catch frame and the frames below that one, or an undefined state and an empty stack
  when \<open>rest\<close> has no catch frame.
\<close>

theorem inspect_twice:
  "params (inspect (inspect c)) = params (inspect c)
   \<and> (\<forall>kvs. params (inspect c) = Some (JObj kvs) \<and> map_of kvs ''error'' = None
          \<longrightarrow> inspect (inspect c) = inspect c)
   \<and> (stack (inspect c) = [] \<and> state (inspect c) = None \<longrightarrow> inspect (inspect c) = inspect c)
   \<and> (\<forall>e pre f n rest.
          map_of (wrap (params c)) ''error'' = Some e \<and> stack c = pre @ f # rest
          \<and> (\<forall>g \<in> set pre. frame_catch g = None) \<and> frame_catch f = Some n
          \<longrightarrow> inspect c = c\<lparr>state := Some n, stack := rest, params := Some (JObj [(''error'', e)])\<rparr>
            \<and> inspect (inspect c)
                = c\<lparr>state := fst (unwind None rest), stack := snd (unwind None rest),
                     params := Some (JObj [(''error'', e)])\<rparr>
            \<and> inspect (inspect c) \<noteq> inspect c
            \<and> ((\<forall>g \<in> set rest. frame_catch g = None) \<longrightarrow>
                  inspect (inspect c)
                    = c\<lparr>state := None, stack := [], params := Some (JObj [(''error'', e)])\<rparr>)
            \<and> (\<forall>pre' f' n' rest'.
                  rest = pre' @ f' # rest' \<and> (\<forall>g \<in> set pre'. frame_catch g = None)
                  \<and> frame_catch f' = Some n' \<longrightarrow>
                  inspect (inspect c)
                    = c\<lparr>state := Some n', stack := rest', params := Some (JObj [(''error'', e)])\<rparr>))"
proof -
  obtain kvs where p: "params (inspect c) = Some (JObj kvs)"
    using inspect_params_obj by blast
  have shape: "kvs = [(''error'', v)]" if "map_of kvs ''error'' = Some v" for v
    using inspect_error_shape [OF p that] .
  have a: "params (inspect (inspect c)) = params (inspect c)"
  proof (cases "map_of kvs ''error''")
    case None
    with p show ?thesis by (simp add: inspect_no_error_fixed)
  next
    case (Some v)
    with p shape show ?thesis
      by (auto simp: inspect_def [of "inspect c"] split: prod.splits)
  qed
  have b: "inspect (inspect c) = inspect c"
    if "params (inspect c) = Some (JObj k) \<and> map_of k ''error'' = None" for k
    using that by (simp add: inspect_no_error_fixed)
  have d: "inspect (inspect c) = inspect c" if e: "stack (inspect c) = [] \<and> state (inspect c) = None"
  proof (cases "map_of kvs ''error''")
    case None
    with p show ?thesis by (simp add: inspect_no_error_fixed)
  next
    case (Some v)
    with p shape e show ?thesis
      by (auto simp: inspect_def [of "inspect c"])
  qed
  have g: "inspect c = c\<lparr>state := Some n, stack := rest, params := Some (JObj [(''error'', e)])\<rparr>
           \<and> inspect (inspect c)
               = c\<lparr>state := fst (unwind None rest), stack := snd (unwind None rest),
                    params := Some (JObj [(''error'', e)])\<rparr>
           \<and> inspect (inspect c) \<noteq> inspect c
           \<and> ((\<forall>g \<in> set rest. frame_catch g = None) \<longrightarrow>
                 inspect (inspect c)
                   = c\<lparr>state := None, stack := [], params := Some (JObj [(''error'', e)])\<rparr>)
           \<and> (\<forall>pre' f' n' rest'.
                 rest = pre' @ f' # rest' \<and> (\<forall>g \<in> set pre'. frame_catch g = None)
                 \<and> frame_catch f' = Some n' \<longrightarrow>
                 inspect (inspect c)
                   = c\<lparr>state := Some n', stack := rest', params := Some (JObj [(''error'', e)])\<rparr>)"
    if h: "map_of (wrap (params c)) ''error'' = Some e \<and> stack c = pre @ f # rest
           \<and> (\<forall>g \<in> set pre. frame_catch g = None) \<and> frame_catch f = Some n"
    for e pre f n rest
  proof -
    from h have first:
      "inspect c = c\<lparr>state := Some n, stack := rest, params := Some (JObj [(''error'', e)])\<rparr>"
      using inspect_error_catch [of c e pre f rest n] by blast
    have second: "inspect (inspect c)
        = c\<lparr>state := fst (unwind None rest), stack := snd (unwind None rest),
             params := Some (JObj [(''error'', e)])\<rparr>"
      unfolding first by (simp add: inspect_def split: prod.splits)
    have differ: "inspect (inspect c) \<noteq> inspect c"
    proof
      assume eq: "inspect (inspect c) = inspect c"
      have s2: "state (inspect (inspect c)) = fst (unwind None rest)"
        by (simp only: second) simp
      have k2: "stack (inspect (inspect c)) = snd (unwind None rest)"
        by (simp only: second) simp
      have s1: "state (inspect c) = Some n"
        by (simp only: first) simp
      have k1: "stack (inspect c) = rest"
        by (simp only: first) simp
      from s1 s2 k1 k2 eq have "unwind None rest = (Some n, rest)"
        by (simp add: prod_eq_iff)
      with unwind_changes [of rest n] show False by simp
    qed
    have none: "inspect (inspect c)
          = c\<lparr>state := None, stack := [], params := Some (JObj [(''error'', e)])\<rparr>"
      if "\<forall>g \<in> set rest. frame_catch g = None"
      using unwind_no_catch [OF that] by (simp only: second) simp
    have some: "inspect (inspect c)
          = c\<lparr>state := Some n', stack := rest', params := Some (JObj [(''error'', e)])\<rparr>"
      if "rest = pre' @ f' # rest' \<and> (\<forall>g \<in> set pre'. frame_catch g = None) \<and> frame_catch f' = Some n'"
      for pre' f' n' rest'
    proof -
      from that have "unwind None rest = (Some n', rest')"
        using unwind_to_catch [of pre' f' n' None rest'] by blast
      then show ?thesis by (simp only: second) simp
    qed
    from first second differ none some show ?thesis by blast
  qed
  from a b d g show ?thesis by blast
qed

theorem inspect_twice_witness:
  "inspect \<lparr>state = Some 0, stack = [let_frame []], params = Some (JObj [(''error'', JStr ''e'')])\<rparr>
     = \<lparr>state = None, stack = [], params = Some (JObj [(''error'', JStr ''e'')])\<rparr>
   \<and> inspect \<lparr>state = None, stack = [], params = Some (JObj [(''error'', JStr ''e'')])\<rparr>
     = \<lparr>state = None, stack = [], params = Some (JObj [(''error'', JStr ''e'')])\<rparr>
   \<and> inspect \<lparr>state = Some 4, stack = [let_frame []], params = Some (JNum 5)\<rparr>
     = \<lparr>state = Some 4, stack = [let_frame []], params = Some (JObj [(''value'', JNum 5)])\<rparr>
   \<and> inspect \<lparr>state = Some 4, stack = [let_frame []], params = Some (JObj [(''value'', JNum 5)])\<rparr>
     = \<lparr>state = Some 4, stack = [let_frame []], params = Some (JObj [(''value'', JNum 5)])\<rparr>
   \<and> inspect \<lparr>state = Some 0, stack = [let_frame [], catch_frame 5, params_frame None, catch_frame 9, let_frame []],
               params = Some (JObj [(''error'', JNum 1), (''x'', JNum 2)])\<rparr>
     = \<lparr>state = Some 5, stack = [params_frame None, catch_frame 9, let_frame []],
        params = Some (JObj [(''error'', JNum 1)])\<rparr>
   \<and> inspect (inspect \<lparr>state = Some 0, stack = [let_frame [], catch_frame 5, params_frame None, catch_frame 9, let_frame []],
               params = Some (JObj [(''error'', JNum 1), (''x'', JNum 2)])\<rparr>)
     = \<lparr>state = Some 9, stack = [let_frame []], params = Some (JObj [(''error'', JNum 1)])\<rparr>
   \<and> inspect (inspect \<lparr>state = Some 0, stack = [catch_frame 5, let_frame []],
               params = Some (JObj [(''error'', JNum 1)])\<rparr>)
     = \<lparr>state = None, stack = [], params = Some (JObj [(''error'', JNum 1)])\<rparr>"
proof -
  let ?c = "\<lparr>state = Some 0, stack = [let_frame []], params = Some (JObj [(''error'', JStr ''e'')])\<rparr>"
  let ?d = "\<lparr>state = Some 4, stack = [let_frame []], params = Some (JNum 5)\<rparr>"
  let ?e = "\<lparr>state = Some 0, stack = [let_frame [], catch_frame 5, params_frame None, catch_frame 9, let_frame []],
             params = Some (JObj [(''error'', JNum 1), (''x'', JNum 2)])\<rparr>"
  let ?f = "\<lparr>state = Some 0, stack = [catch_frame 5, let_frame []], params = Some (JObj [(''error'', JNum 1)])\<rparr>"
  have h: "inspect ?c = \<lparr>state = None, stack = [], params = Some (JObj [(''error'', JStr ''e'')])\<rparr>"
    by (simp add: inspect_def let_frame_def)
  have k: "inspect ?d = \<lparr>state = Some 4, stack = [let_frame []], params = Some (JObj [(''value'', JNum 5)])\<rparr>"
    by (simp add: inspect_def wrap_def entry_def)
  have m: "map_of (wrap (params ?e)) ''error'' = Some (JNum 1)
           \<and> stack ?e = [let_frame []] @ catch_frame 5 # [params_frame None, catch_frame 9, let_frame []]
           \<and> (\<forall>g \<in> set [let_frame []]. frame_catch g = None) \<and> frame_catch (catch_frame 5) = Some 5"
    by (simp add: let_frame_def catch_frame_def)
  have m': "[params_frame None, catch_frame 9, let_frame []] = [params_frame None] @ catch_frame 9 # [let_frame []]
           \<and> (\<forall>g \<in> set [params_frame None]. frame_catch g = None) \<and> frame_catch (catch_frame 9) = Some 9"
    by (simp add: params_frame_def catch_frame_def)
  from inspect_twice [of ?e] m
  have n: "inspect ?e = ?e\<lparr>state := Some 5, stack := [params_frame None, catch_frame 9, let_frame []],
                           params := Some (JObj [(''error'', JNum 1)])\<rparr>
           \<and> (\<forall>pre' f' n' rest'.
                 [params_frame None, catch_frame 9, let_frame []] = pre' @ f' # rest'
                 \<and> (\<forall>g \<in> set pre'. frame_catch g = None) \<and> frame_catch f' = Some n' \<longrightarrow>
                 inspect (inspect ?e)
                   = ?e\<lparr>state := Some n', stack := rest', params := Some (JObj [(''error'', JNum 1)])\<rparr>)"
    by blast
  from n [THEN conjunct1] have n1: "inspect ?e = \<lparr>state = Some 5, stack = [params_frame None, catch_frame 9, let_frame []],
        params = Some (JObj [(''error'', JNum 1)])\<rparr>"
    by simp
  from n [THEN conjunct2] m' have "inspect (inspect ?e)
      = ?e\<lparr>state := Some 9, stack := [let_frame []], params := Some (JObj [(''error'', JNum 1)])\<rparr>"
    by blast
  then have n2: "inspect (inspect ?e) = \<lparr>state = Some 9, stack = [let_frame []], params = Some (JObj [(''error'', JNum 1)])\<rparr>"
    by simp
  have q: "map_of (wrap (params ?f)) ''error'' = Some (JNum 1)
           \<and> stack ?f = [] @ catch_frame 5 # [let_frame []]
           \<and> (\<forall>g \<in> set []. frame_catch g = None) \<and> frame_catch (catch_frame 5) = Some 5"
    by (simp add: catch_frame_def)
  have q': "\<forall>g \<in> set [let_frame []]. frame_catch g = None"
    by (simp add: let_frame_def)
  from inspect_twice [of ?f] q
  have "(\<forall>g \<in> set [let_frame []]. frame_catch g = None) \<longrightarrow>
          inspect (inspect ?f) = ?f\<lparr>state := None, stack := [], params := Some (JObj [(''error'', JNum 1)])\<rparr>"
    by blast
  with q' have r: "inspect (inspect ?f) = \<lparr>state = None, stack = [], params = Some (JObj [(''error'', JNum 1)])\<rparr>"
    by simp
  from inspect_twice [of ?c] inspect_twice [of ?d] have o:
   "inspect \<lparr>state = None, stack = [], params = Some (JObj [(''error'', JStr ''e'')])\<rparr>
     = \<lparr>state = None, stack = [], params = Some (JObj [(''error'', JStr ''e'')])\<rparr>
   \<and> inspect \<lparr>state = Some 4, stack = [let_frame []], params = Some (JObj [(''value'', JNum 5)])\<rparr>
     = \<lparr>state = Some 4, stack = [let_frame []], params = Some (JObj [(''value'', JNum 5)])\<rparr>"
    unfolding h k by simp
  from h k o n1 n2 r show ?thesis by blast
qed

text \<open>
  Claim C6 as stated fails: with two catch frames on the stack and an error in
  \<open>params\<close>, the first run jumps to the first handler and the second run to the second.
\<close>

theorem inspect_not_idempotent:
  "inspect (inspect \<lparr>state = Some 0, stack = [catch_frame 3, catch_frame 7],
                     params = Some (JObj [(''error'', JStr ''e'')])\<rparr>)
   \<noteq> inspect \<lparr>state = Some 0, stack = [catch_frame 3, catch_frame 7],
                params = Some (JObj [(''error'', JStr ''e'')])\<rparr>"
  by (simp add: inspect_def catch_frame_def)

section \<open>The example compositions compiled\<close>

lemma compile_if_example:
  "compile if_example [] =
  Inr [\<lparr>kind = S_push None, path = [], next = Some 1\<rparr>,
       \<lparr>kind = S_literal (JObj [(''value'', JNum 1)]), path = ''.test'', next = Some 1\<rparr>,
       \<lparr>kind = S_choice 1 4, path = [], next = None\<rparr>,
       \<lparr>kind = S_pop False, path = [], next = Some 1\<rparr>,
       \<lparr>kind = S_literal (JStr ''yes''), path = ''.consequent[0]'', next = Some 1\<rparr>,
       \<lparr>kind = S_literal (JStr ''done''), path = ''.consequent[1]'', next = Some 3\<rparr>,
       \<lparr>kind = S_pop False, path = [], next = Some 1\<rparr>,
       \<lparr>kind = S_literal (JStr ''no''), path = ''.alternate'', next = Some 1\<rparr>,
       \<lparr>kind = S_pass, path = [], next = None\<rparr>]"
  by (simp add: if_example_def no_options_def bnd_def chain_def set_last_next_def new_state_def show_nat.simps digit_char_def)

lemma init_if_example:
  "init if_example =
  Inr [\<lparr>ident = 8, ptype = P_push None, ppath = [], pnext = Some 1\<rparr>,
       \<lparr>ident = 6, ptype = P_literal (JObj [(''value'', JNum 1)]), ppath = '':1'', pnext = Some 2\<rparr>,
       \<lparr>ident = 7, ptype = P_choice 3 6, ppath = [], pnext = None\<rparr>,
       \<lparr>ident = 4, ptype = P_pop False, ppath = [], pnext = Some 4\<rparr>,
       \<lparr>ident = 0, ptype = P_literal (JStr ''yes''), ppath = '':2:0'', pnext = Some 5\<rparr>,
       \<lparr>ident = 1, ptype = P_literal (JStr ''done''), ppath = '':2:1'', pnext = Some 8\<rparr>,
       \<lparr>ident = 5, ptype = P_pop False, ppath = [], pnext = Some 7\<rparr>,
       \<lparr>ident = 2, ptype = P_literal (JStr ''no''), ppath = '':3'', pnext = Some 8\<rparr>,
       \<lparr>ident = 3, ptype = P_pass, ppath = [], pnext = None\<rparr>]"
  by (simp add: init_def if_example_def no_options_def bnd_def chain_ptr_def set_last_next_ptr_def new_object_def first_ptr_def last_ptr_def relink_def relink_data_def element_at_def array_index_def show_nat.simps digit_char_def)

lemma compile_let_example:
  "compile let_example [] =
  Inr [\<lparr>kind = S_let [], path = [], next = Some 1\<rparr>,
       \<lparr>kind = S_pass, path = ''.body'', next = Some 1\<rparr>,
       \<lparr>kind = S_exit, path = [], next = None\<rparr>]"
  by (simp add: let_example_def no_options_def bnd_def chain_def set_last_next_def new_state_def show_nat.simps digit_char_def)

lemma init_let_example:
  "init let_example =
  Inr [\<lparr>ident = 1, ptype = P_let (JObj []), ppath = [], pnext = Some 1\<rparr>,
       \<lparr>ident = 0, ptype = P_pass, ppath = '':1'', pnext = Some 2\<rparr>,
       \<lparr>ident = 2, ptype = P_exit, ppath = [], pnext = None\<rparr>]"
  by (simp add: init_def let_example_def no_options_def bnd_def chain_ptr_def set_last_next_ptr_def new_object_def first_ptr_def last_ptr_def relink_def relink_data_def element_at_def array_index_def show_nat.simps digit_char_def)

lemma compile_retain_example:
  "compile retain_example [] =
  Inr [\<lparr>kind = S_push None, path = [], next = Some 1\<rparr>,
       \<lparr>kind = S_pass, path = ''.body'', next = Some 1\<rparr>,
       \<lparr>kind = S_pop True, path = [], next = None\<rparr>]"
  by (simp add: retain_example_def no_options_def bnd_def chain_def set_last_next_def new_state_def show_nat.simps digit_char_def)

lemma init_retain_example:
  "init retain_example =
  Inr [\<lparr>ident = 1, ptype = P_push None, ppath = [], pnext = Some 1\<rparr>,
       \<lparr>ident = 0, ptype = P_pass, ppath = '':1'', pnext = Some 2\<rparr>,
       \<lparr>ident = 2, ptype = P_pop True, ppath = [], pnext = None\<rparr>]"
  by (simp add: init_def retain_example_def no_options_def bnd_def chain_ptr_def set_last_next_ptr_def new_object_def first_ptr_def last_ptr_def relink_def relink_data_def element_at_def array_index_def show_nat.simps digit_char_def)

lemma compile_while_example:
  "compile while_example [] =
  Inr [\<lparr>kind = S_push None, path = [], next = Some 1\<rparr>,
       \<lparr>kind = S_literal (JBool True), path = '':test'', next = Some 1\<rparr>,
       \<lparr>kind = S_choice 1 3, path = [], next = None\<rparr>,
       \<lparr>kind = S_pop False, path = [], next = Some 1\<rparr>,
       \<lparr>kind = S_literal (JNum 1), path = ''.body'', next = Some (- 4)\<rparr>,
       \<lparr>kind = S_pop False, path = [], next = Some 1\<rparr>,
       \<lparr>kind = S_pass, path = [], next = None\<rparr>]"
  by (simp add: while_example_def no_options_def bnd_def chain_def set_last_next_def new_state_def show_nat.simps digit_char_def)

lemma init_while_example:
  "init while_example =
  Inr [\<lparr>ident = 6, ptype = P_push None, ppath = [], pnext = Some 1\<rparr>,
       \<lparr>ident = 4, ptype = P_literal (JBool True), ppath = '':1'', pnext = Some 2\<rparr>,
       \<lparr>ident = 5, ptype = P_choice 3 5, ppath = [], pnext = None\<rparr>,
       \<lparr>ident = 2, ptype = P_pop False, ppath = [], pnext = Some 4\<rparr>,
       \<lparr>ident = 0, ptype = P_literal (JNum 1), ppath = '':2'', pnext = Some 0\<rparr>,
       \<lparr>ident = 3, ptype = P_pop False, ppath = [], pnext = Some 6\<rparr>,
       \<lparr>ident = 1, ptype = P_pass, ppath = [], pnext = None\<rparr>]"
  by (simp add: init_def while_example_def no_options_def bnd_def chain_ptr_def set_last_next_ptr_def new_object_def first_ptr_def last_ptr_def relink_def relink_data_def element_at_def array_index_def show_nat.simps digit_char_def)

section \<open>Dispatch of choice, exit and pop\<close>

lemma show_int_2 [simp]: "show_int 2 = ''2''"
  by (simp add: show_int_def show_nat.simps digit_char_def)

text \<open>
  Claim C1 (as amended).  In \<open>function conductor\<close> a \<open>choice\<close> state sets the next state
  to \<open>current + json.then\<close> when \<open>params.value\<close> is truthy and to \<open>current + json.else\<close>
  otherwise, whatever the truthy value is.  In \<open>main\<close> of composer.js the targets are
  state indices and \<open>then\<close> is taken only when \<open>params.value\<close> is the boolean \<open>true\<close>.
  (Reading \<open>value\<close> of a \<open>params\<close> that is \<open>null\<close> or \<open>undefined\<close> throws in both.)
\<close>

theorem choice_dispatch:
  "(0 \<le> current \<and> current < int (length fsm) \<and> kind (fsm ! nat current) = S_choice t e
      \<and> getp (params c) ''value'' = Inr v
    \<longrightarrow> step fsm ev current c = Continue (c\<lparr>state := Some (current + (if truthy v then t else e))\<rparr>))
   \<and> (0 \<le> current \<and> current < int (length states) \<and> ptype (states ! nat current) = P_choice th el
      \<and> getp (params c) ''value'' = Inr v
    \<longrightarrow> main_step states current c
          = Continue_ptr (c\<lparr>state := Some (if v = Some (JBool True) then th else el)\<rparr>))"
  by (simp add: step_def main_step_def Let_def)

theorem choice_dispatch_witness:
  "step (states_of (compile if_example [])) no_eval 2
        \<lparr>state = Some 2, stack = [params_frame (Some (JObj []))], params = Some (JObj [(''value'', JNum 1)])\<rparr>
     = Continue \<lparr>state = Some 3, stack = [params_frame (Some (JObj []))], params = Some (JObj [(''value'', JNum 1)])\<rparr>
   \<and> main_step (states_of (init if_example)) 2
        \<lparr>state = Some 2, stack = [params_frame (Some (JObj []))], params = Some (JObj [(''value'', JBool True)])\<rparr>
     = Continue_ptr \<lparr>state = Some 3, stack = [params_frame (Some (JObj []))], params = Some (JObj [(''value'', JBool True)])\<rparr>"
  using choice_dispatch [of 2 "states_of (compile if_example [])" 1 4
          "\<lparr>state = Some 2, stack = [params_frame (Some (JObj []))], params = Some (JObj [(''value'', JNum 1)])\<rparr>"
          "Some (JNum 1)" no_eval]
        choice_dispatch [of 2 _ _ _ 
          "\<lparr>state = Some 2, stack = [params_frame (Some (JObj []))], params = Some (JObj [(''value'', JBool True)])\<rparr>"
          "Some (JBool True)" _ "states_of (init if_example)" 3 6]
  by (simp add: compile_if_example init_if_example states_of_def)

text \<open>
  Claim C1 as stated fails for \<open>main\<close> of composer.js: at the \<open>choice\<close> state of the
  example (index 2, \<open>then\<close> 3, \<open>else\<close> 6) the truthy value \<open>1\<close> leads to the \<open>else\<close>
  target.
\<close>

theorem choice_strict_in_main:
  "truthy (Some (JNum 1))
   \<and> ptype (states_of (init if_example) ! 2) = P_choice 3 6
   \<and> main_step (states_of (init if_example)) 2
        \<lparr>state = Some 2, stack = [params_frame (Some (JObj []))], params = Some (JObj [(''value'', JNum 1)])\<rparr>
     = Continue_ptr \<lparr>state = Some 6, stack = [params_frame (Some (JObj []))], params = Some (JObj [(''value'', JNum 1)])\<rparr>"
  by (simp add: init_if_example states_of_def main_step_def)

text \<open>
  Claim C2 (as amended).  In \<open>function conductor\<close> an \<open>exit\<close> or a \<open>pop\<close> state met with
  an empty stack ends the invocation with an internal error: a rejection with code 500,
  which the catch-all keeps.  In \<open>main\<close> of composer.js the same case is a bad request,
  rejected with code 400.  In both, \<open>exit\<close> on a stack that is not empty removes the
  front frame and nothing else.
\<close>

theorem exit_pop_dispatch:
  "(0 \<le> current \<and> current < int (length fsm) \<and> stack c = []
      \<and> (kind (fsm ! nat current) = S_exit \<or> kind (fsm ! nat current) = S_pop b)
    \<longrightarrow> step fsm ev current c
          = Done (Reject (Failure 500 (Text (''State '' @ show_int current @ '' attempted to pop from an empty stack''))))
        \<and> settle (Reject (Failure 500 (Text (''State '' @ show_int current @ '' attempted to pop from an empty stack''))))
          = Reject (Failure 500 (Text (''State '' @ show_int current @ '' attempted to pop from an empty stack''))))
   \<and> (0 \<le> current \<and> current < int (length fsm) \<and> stack c = f # rest \<and> kind (fsm ! nat current) = S_exit
    \<longrightarrow> step fsm ev current c
          = Continue (c\<lparr>state := map_option (\<lambda>n. current + n) (next (fsm ! nat current)), stack := rest\<rparr>))
   \<and> (0 \<le> current \<and> current < int (length states) \<and> stack c = []
      \<and> (ptype (states ! nat current) = P_exit \<or> ptype (states ! nat current) = P_pop b)
    \<longrightarrow> main_step states current c
          = Done_ptr (Reject (Failure 400 (Text (''State '' @ show_int current @ '' attempted to pop from an empty stack''))))
        \<and> settle (Reject (Failure 400 (Text (''State '' @ show_int current @ '' attempted to pop from an empty stack''))))
          = Reject (Failure 400 (Text (''State '' @ show_int current @ '' attempted to pop from an empty stack''))))
   \<and> (0 \<le> current \<and> current < int (length states) \<and> stack c = f # rest \<and> ptype (states ! nat current) = P_exit
    \<longrightarrow> main_step states current c = Continue_ptr (c\<lparr>state := pnext (states ! nat current), stack := rest\<rparr>))"
  by (auto simp: step_def main_step_def Let_def internalError_def badRequest_def settle_def)

theorem exit_pop_dispatch_witness:
  "step (states_of (compile let_example [])) no_eval 2 \<lparr>state = Some 2, stack = [], params = Some (JObj [])\<rparr>
     = Done (Reject (Failure 500 (Text ''State 2 attempted to pop from an empty stack'')))
   \<and> step (states_of (compile let_example [])) no_eval 2
        \<lparr>state = Some 2, stack = [let_frame [], catch_frame 7], params = Some (JObj [])\<rparr>
     = Continue \<lparr>state = None, stack = [catch_frame 7], params = Some (JObj [])\<rparr>
   \<and> main_step (states_of (init retain_example)) 2 \<lparr>state = Some 2, stack = [], params = Some (JObj [])\<rparr>
     = Done_ptr (Reject (Failure 400 (Text ''State 2 attempted to pop from an empty stack'')))
   \<and> main_step (states_of (init let_example)) 2
        \<lparr>state = Some 2, stack = [let_frame [], catch_frame 7], params = Some (JObj [])\<rparr>
     = Continue_ptr \<lparr>state = None, stack = [catch_frame 7], params = Some (JObj [])\<rparr>"
  using exit_pop_dispatch [of 2 "states_of (compile let_example [])"
          "\<lparr>state = Some 2, stack = [], params = Some (JObj [])\<rparr>" True no_eval "let_frame []" "[catch_frame 7]"
          "states_of (init retain_example)"]
        exit_pop_dispatch [of 2 "states_of (compile let_example [])"
          "\<lparr>state = Some 2, stack = [let_frame [], catch_frame 7], params = Some (JObj [])\<rparr>" True no_eval
          "let_frame []" "[catch_frame 7]" "states_of (init let_example)"]
  by (simp add: compile_let_example init_let_example init_retain_example states_of_def)

text \<open>
  Claim C2 as stated fails for \<open>main\<close> of composer.js: \<open>exit\<close> with an empty stack (the
  last state of \<open>let({}, seq())\<close>, resumed with an empty stack) is rejected with code 400.
\<close>

theorem exit_is_bad_request_in_main:
  "ptype (states_of (init let_example) ! 2) = P_exit
   \<and> main_step (states_of (init let_example)) 2 \<lparr>state = Some 2, stack = [], params = Some (JObj [])\<rparr>
     = Done_ptr (Reject (Failure 400 (Text ''State 2 attempted to pop from an empty stack'')))
   \<and> settle (Reject (Failure 400 (Text ''State 2 attempted to pop from an empty stack'')))
     = Reject (Failure 400 (Text ''State 2 attempted to pop from an empty stack''))"
  by (simp add: init_let_example states_of_def main_step_def badRequest_def settle_def internalError_def)

section \<open>The compiler of function conductor\<close>

lemma bnd_Inr [simp]: "bnd (Inr x) f = f x"
  by (simp add: bnd_def)

lemma bnd_Inl [simp]: "bnd (Inl e) f = Inl e"
  by (simp add: bnd_def)

lemma set_last_next_nonempty:
  "front \<noteq> [] \<Longrightarrow> set_last_next n front = Inr (butlast front @ [(last front)\<lparr>next := Some n\<rparr>])"
  by (simp add: set_last_next_def)

lemma chain_nonempty:
  "front \<noteq> [] \<Longrightarrow> chain front back = Inr (butlast front @ [(last front)\<lparr>next := Some 1\<rparr>] @ back)"
  by (simp add: chain_def set_last_next_nonempty)

lemma reduce_chain_total:
  "acc \<noteq> [] \<Longrightarrow> \<exists>r. reduce_chain acc xs = Inr r \<and> r \<noteq> []"
  by (induction xs arbitrary: acc) (auto simp: chain_nonempty)

lemma set_catch_total:
  "fsm \<noteq> [] \<Longrightarrow> \<exists>r. set_catch n fsm = Inr r \<and> r \<noteq> []"
  by (cases fsm) (auto simp: set_catch_def)

lemma set_field_total:
  "fsm \<noteq> [] \<Longrightarrow> \<exists>r. set_field f fsm = Inr r \<and> r \<noteq> []"
  by (cases fsm) (auto simp: set_field_def)

lemma compile_each_total:
  assumes "\<And>a p. a \<in> set js \<Longrightarrow> \<exists>fsm. compile a p = Inr fsm \<and> fsm \<noteq> []"
  shows "\<exists>fs. compile_each js i p = Inr fs \<and> length fs = length js \<and> (\<forall>f \<in> set fs. f \<noteq> [])"
  using assms
proof (induction js arbitrary: i)
  case Nil
  then show ?case by simp
next
  case (Cons j js)
  obtain f where f: "compile j (p @ ''['' @ show_nat i @ '']'') = Inr f" "f \<noteq> []"
    using Cons.prems [of j] by auto
  obtain fs where fs: "compile_each js (Suc i) p = Inr fs" "length fs = length js" "\<forall>f \<in> set fs. f \<noteq> []"
    using Cons.IH [of "Suc i"] Cons.prems by auto
  show ?case using f fs by simp
qed

lemma compile_total: "\<exists>fsm. compile a p = Inr fsm \<and> fsm \<noteq> []"
proof (induction a arbitrary: p)
  case (C_seq json)
  show ?case
  proof (cases "json = []")
    case True
    then show ?thesis by simp
  next
    case False
    obtain fs where fs: "compile_each json 0 p = Inr fs" "length fs = length json"
      "\<forall>f \<in> set fs. f \<noteq> []" using compile_each_total [of json 0 p] C_seq by blast
    with False obtain f rest where fr: "fs = f # rest" by (cases fs) auto
    with fs have "f \<noteq> []" by simp
    from reduce_chain_total [OF this] show ?thesis using False fs fr by auto
  qed
next
  case (C_finally b f)
  obtain body finalizer where bf: "compile b (p @ ''.body'') = Inr body" "body \<noteq> []"
     "compile f (p @ ''.finalizer'') = Inr finalizer" "finalizer \<noteq> []"
    using C_finally by blast
  obtain r where r: "reduce_chain [new_state (S_try 0) p] [body, [new_state S_exit p], finalizer] = Inr r" "r \<noteq> []"
    using reduce_chain_total [of "[new_state (S_try 0) p]"] by blast
  from set_catch_total [OF r(2)] show ?case using bf r by auto
next
  case (C_let d b)
  obtain body where bf: "compile b (p @ ''.body'') = Inr body" "body \<noteq> []" using C_let by blast
  obtain r where r: "reduce_chain [new_state (S_let d) p] [body, [new_state S_exit p]] = Inr r" "r \<noteq> []"
    using reduce_chain_total [of "[new_state (S_let d) p]"] by blast
  show ?case using bf r by auto
next
  case (C_retain b opts)
  obtain body where bf: "compile b (p @ ''.body'') = Inr body" "body \<noteq> []" using C_retain by blast
  obtain r where r: "reduce_chain [new_state (S_push None) p] [body, [new_state (S_pop True) p]] = Inr r" "r \<noteq> []"
    using reduce_chain_total [of "[new_state (S_push None) p]"] by blast
  show ?case using bf r set_field_total [OF r(2)] by (auto split: option.splits)
next
  case (C_try b h)
  obtain body h0 where bf: "compile b (p @ ''.body'') = Inr body" "body \<noteq> []"
     "compile h (p @ ''.handler'') = Inr h0" "h0 \<noteq> []" using C_try by blast
  obtain r where r: "reduce_chain [new_state (S_try 0) p] [body] = Inr r" "r \<noteq> []"
    using reduce_chain_total [of "[new_state (S_try 0) p]"] by blast
  obtain r2 where r2: "set_catch (int (length r)) r = Inr r2" "r2 \<noteq> []"
    using set_catch_total [OF r(2)] by blast
  show ?case using bf r r2 by (auto simp: chain_nonempty set_last_next_nonempty)
next
  case (C_if t c a opts)
  obtain cc a0 tt where bf: "compile c (p @ ''.consequent'') = Inr cc" "cc \<noteq> []"
     "compile a (p @ ''.alternate'') = Inr a0" "a0 \<noteq> []"
     "compile t (p @ ''.test'') = Inr tt" "tt \<noteq> []" using C_if by blast
  show ?case using bf by (auto simp: chain_nonempty set_last_next_nonempty)
next
  case (C_while t b opts)
  obtain cc tt where bf: "compile b (p @ ''.body'') = Inr cc" "cc \<noteq> []"
     "compile t (p @ '':test'') = Inr tt" "tt \<noteq> []" using C_while by blast
  show ?case using bf by (auto simp: chain_nonempty set_last_next_nonempty)
qed simp_all


text \<open>
  Claim C3 (as amended).  For \<open>function conductor\<close>: a \<open>while(test, body)\<close> without
  \<open>nosave\<close> compiles to a \<open>push\<close>, the compiled test, a \<open>choice\<close> with \<open>then\<close> 1 and
  \<open>else\<close> the length of the body plus 2 (the body with the \<open>pop\<close> put before it, plus
  1), a \<open>pop\<close>, the compiled body, a \<open>pop\<close> and a \<open>pass\<close>.  The last state of the test
  and the \<open>push\<close> and \<open>pop\<close> states go on to the next state; the last state of the body
  has as \<open>next\<close> the negative of its own index in the block, which leads back to the
  \<open>push\<close>.  All of these are offsets from the state that holds them.  (The compiler of
  composer.js links the same states by their indices.)
\<close>

theorem while_compiled:
  assumes "\<not> truthy (nosave opts)"
  shows "\<exists>test body.
      compile t (p @ '':test'') = Inr test \<and> test \<noteq> [] \<and>
      compile b (p @ ''.body'') = Inr body \<and> body \<noteq> [] \<and>
      compile (C_while t b opts) p =
        Inr ([\<lparr>kind = S_push None, path = p, next = Some 1\<rparr>]
             @ butlast test @ [(last test)\<lparr>next := Some 1\<rparr>]
             @ [\<lparr>kind = S_choice 1 (int (length body) + 2), path = p, next = None\<rparr>]
             @ [\<lparr>kind = S_pop False, path = p, next = Some 1\<rparr>]
             @ butlast body @ [(last body)\<lparr>next := Some (- (int (length test) + int (length body) + 2))\<rparr>]
             @ [\<lparr>kind = S_pop False, path = p, next = Some 1\<rparr>, \<lparr>kind = S_pass, path = p, next = None\<rparr>])"
proof -
  obtain test where t: "compile t (p @ '':test'') = Inr test" "test \<noteq> []"
    using compile_total by blast
  obtain body where b: "compile b (p @ ''.body'') = Inr body" "body \<noteq> []"
    using compile_total by blast
  have "compile (C_while t b opts) p =
        Inr ([\<lparr>kind = S_push None, path = p, next = Some 1\<rparr>]
             @ butlast test @ [(last test)\<lparr>next := Some 1\<rparr>]
             @ [\<lparr>kind = S_choice 1 (int (length body) + 2), path = p, next = None\<rparr>]
             @ [\<lparr>kind = S_pop False, path = p, next = Some 1\<rparr>]
             @ butlast body @ [(last body)\<lparr>next := Some (- (int (length test) + int (length body) + 2))\<rparr>]
             @ [\<lparr>kind = S_pop False, path = p, next = Some 1\<rparr>, \<lparr>kind = S_pass, path = p, next = None\<rparr>])"
    using assms t b
    by (simp add: chain_nonempty set_last_next_nonempty new_state_def butlast_append)
  with t b show ?thesis by blast
qed

theorem while_compiled_witness:
  "\<not> truthy (nosave no_options)
   \<and> compile (C_while (C_literal (JBool True)) (C_literal (JNum 1)) no_options) [] =
     Inr [\<lparr>kind = S_push None, path = [], next = Some 1\<rparr>,
          \<lparr>kind = S_literal (JBool True), path = '':test'', next = Some 1\<rparr>,
          \<lparr>kind = S_choice 1 3, path = [], next = None\<rparr>,
          \<lparr>kind = S_pop False, path = [], next = Some 1\<rparr>,
          \<lparr>kind = S_literal (JNum 1), path = ''.body'', next = Some (- 4)\<rparr>,
          \<lparr>kind = S_pop False, path = [], next = Some 1\<rparr>,
          \<lparr>kind = S_pass, path = [], next = None\<rparr>]"
proof -
  have h: "\<not> truthy (nosave no_options)" by (simp add: no_options_def)
  from while_compiled [OF h, of "C_literal (JBool True)" "[]" "C_literal (JNum 1)"]
  show ?thesis using h
    by (simp del: compile.simps(10) add: new_state_def)
qed

text \<open>
  Claim C3 as stated fails for the compiler of composer.js: in \<open>while(literal(true),
  literal(1))\<close> the \<open>choice\<close> (index 2) holds the indices 3 and 5, not the offsets 1 and
  3, and the body's last state (index 4) holds the index 0 of the \<open>push\<close>, not \<open>-4\<close>.
\<close>

theorem while_linked_by_index:
  "\<not> truthy (nosave no_options)
   \<and> map ptype (states_of (init while_example))
       = [P_push None, P_literal (JBool True), P_choice 3 5, P_pop False, P_literal (JNum 1), P_pop False, P_pass]
   \<and> map pnext (states_of (init while_example)) = [Some 1, Some 2, None, Some 4, Some 0, Some 6, None]"
  by (simp add: init_while_example states_of_def no_options_def)

section \<open>A run of retain\<close>

lemma retain_literal_compiled:
  "compile (C_retain (C_literal (JObj [(''y'', JNum 2)])) no_options) [] =
     Inr [\<lparr>kind = S_push None, path = [], next = Some 1\<rparr>,
          \<lparr>kind = S_literal (JObj [(''y'', JNum 2)]), path = ''.body'', next = Some 1\<rparr>,
          \<lparr>kind = S_pop True, path = [], next = None\<rparr>]"
  by (simp add: no_options_def chain_def set_last_next_def new_state_def)

text \<open>
  Claim C4.  \<open>retain(literal({y: 2}))\<close> compiles to \<open>push\<close>, \<open>literal\<close>,
  \<open>pop{collect: true}\<close>.  On \<open>{x: 1}\<close> the \<open>push\<close> puts a frame with the input on the
  stack, the \<open>literal\<close> makes \<open>params\<close> \<open>{y: 2}\<close>, the \<open>pop\<close> pairs the two and leaves no
  next state, and the conductor resolves with
  \<open>{params: {params: {x: 1}, result: {y: 2}}}\<close>, whatever the engine.
\<close>

theorem retain_literal_run:
  "compile (C_retain (C_literal (JObj [(''y'', JNum 2)])) no_options) [] =
     Inr [\<lparr>kind = S_push None, path = [], next = Some 1\<rparr>,
          \<lparr>kind = S_literal (JObj [(''y'', JNum 2)]), path = ''.body'', next = Some 1\<rparr>,
          \<lparr>kind = S_pop True, path = [], next = None\<rparr>]
   \<and> step (states_of (compile (C_retain (C_literal (JObj [(''y'', JNum 2)])) no_options) [])) ev 0
        \<lparr>state = Some 0, stack = [], params = Some (JObj [(''x'', JNum 1)])\<rparr>
     = Continue \<lparr>state = Some 1, stack = [params_frame (Some (JObj [(''x'', JNum 1)]))],
                 params = Some (JObj [(''x'', JNum 1)])\<rparr>
   \<and> step (states_of (compile (C_retain (C_literal (JObj [(''y'', JNum 2)])) no_options) [])) ev 1
        \<lparr>state = Some 1, stack = [params_frame (Some (JObj [(''x'', JNum 1)]))],
         params = Some (JObj [(''x'', JNum 1)])\<rparr>
     = Continue \<lparr>state = Some 2, stack = [params_frame (Some (JObj [(''x'', JNum 1)]))],
                 params = Some (JObj [(''y'', JNum 2)])\<rparr>
   \<and> step (states_of (compile (C_retain (C_literal (JObj [(''y'', JNum 2)])) no_options) [])) ev 2
        \<lparr>state = Some 2, stack = [params_frame (Some (JObj [(''x'', JNum 1)]))],
         params = Some (JObj [(''y'', JNum 2)])\<rparr>
     = Continue \<lparr>state = None, stack = [],
                 params = Some (JObj [(''params'', JObj [(''x'', JNum 1)]), (''result'', JObj [(''y'', JNum 2)])])\<rparr>
   \<and> conductor (C_retain (C_literal (JObj [(''y'', JNum 2)])) no_options) ev (JObj [(''x'', JNum 1)])
     = Some (Return (JObj [(''params'', JObj [(''params'', JObj [(''x'', JNum 1)]),
                                              (''result'', JObj [(''y'', JNum 2)])])]))"
  unfolding conductor_def retain_literal_compiled
  by (simp add: states_of_def invoke_def resume_def loop.simps step_def
        inspect_def wrap_def entry_def finish_def settle_def params_frame_def)

section \<open>Errors: unwinding and the final state\<close>

lemma loop_final:
  "state c = None \<Longrightarrow> loop fsm ev c = Some (finish c)"
  by (simp add: loop.simps)

lemma finish_error:
  "params c = Some (JObj [(''error'', e)]) \<Longrightarrow>
   finish c = (if truthy (Some e) then Return (JObj [(''error'', e)])
               else Return (JObj [(''params'', JObj [(''error'', e)])]))"
  by (simp add: finish_def entry_def)

text \<open>
  Claim C5 (as amended).  When \<open>params\<close> has a defined \<open>error\<close> field, inspect
  replaces \<open>params\<close> by the object with that field alone and removes frames from the
  front of the stack, whatever they are, up to and including the first frame whose
  \<open>catch\<close> is a number; the state becomes that number.  When no frame has one, the stack
  ends empty, the state ends undefined, and the interpreter stops without a crash at
  its next iteration; when the error value is truthy it returns the error object.
\<close>

theorem inspect_unwinds:
  assumes "map_of (wrap (params c)) ''error'' = Some e"
  shows "(\<forall>pre f n rest. stack c = pre @ f # rest \<and> (\<forall>g \<in> set pre. frame_catch g = None)
              \<and> frame_catch f = Some n
            \<longrightarrow> inspect c = c\<lparr>state := Some n, stack := rest, params := Some (JObj [(''error'', e)])\<rparr>)
       \<and> ((\<forall>g \<in> set (stack c). frame_catch g = None)
            \<longrightarrow> inspect c = c\<lparr>state := None, stack := [], params := Some (JObj [(''error'', e)])\<rparr>
              \<and> (truthy (Some e) \<longrightarrow> loop fsm ev (inspect c) = Some (Return (JObj [(''error'', e)]))))"
proof (intro conjI allI impI)
  fix pre f n rest
  assume "stack c = pre @ f # rest \<and> (\<forall>g \<in> set pre. frame_catch g = None) \<and> frame_catch f = Some n"
  then show "inspect c = c\<lparr>state := Some n, stack := rest, params := Some (JObj [(''error'', e)])\<rparr>"
    using inspect_error_catch [OF assms] by blast
next
  assume n: "\<forall>g \<in> set (stack c). frame_catch g = None"
  show i: "inspect c = c\<lparr>state := None, stack := [], params := Some (JObj [(''error'', e)])\<rparr>"
    using inspect_error_no_catch [OF assms n] .
  assume "truthy (Some e)"
  then show "loop fsm ev (inspect c) = Some (Return (JObj [(''error'', e)]))"
    unfolding i by (simp add: loop_final finish_error)
qed

theorem inspect_unwinds_witness:
  "inspect \<lparr>state = Some 1, stack = [let_frame [], params_frame None, catch_frame 5, catch_frame 9],
            params = Some (JObj [(''x'', JNum 1), (''error'', JStr ''e'')])\<rparr>
     = \<lparr>state = Some 5, stack = [catch_frame 9], params = Some (JObj [(''error'', JStr ''e'')])\<rparr>
   \<and> inspect \<lparr>state = Some 1, stack = [let_frame [], params_frame None],
              params = Some (JObj [(''x'', JNum 1), (''error'', JStr ''e'')])\<rparr>
     = \<lparr>state = None, stack = [], params = Some (JObj [(''error'', JStr ''e'')])\<rparr>
   \<and> loop (states_of (compile let_example [])) no_eval
          (inspect \<lparr>state = Some 1, stack = [let_frame [], params_frame None],
                    params = Some (JObj [(''x'', JNum 1), (''error'', JStr ''e'')])\<rparr>)
     = Some (Return (JObj [(''error'', JStr ''e'')]))"
proof -
  let ?p = "Some (JObj [(''x'', JNum 1), (''error'', JStr ''e'')])"
  let ?c = "\<lparr>state = Some 1, stack = [let_frame [], params_frame None, catch_frame 5, catch_frame 9], params = ?p\<rparr>"
  let ?d = "\<lparr>state = Some 1, stack = [let_frame [], params_frame None], params = ?p\<rparr>"
  have hc: "map_of (wrap (params ?c)) ''error'' = Some (JStr ''e'')" by simp
  have hd: "map_of (wrap (params ?d)) ''error'' = Some (JStr ''e'')" by simp
  have 1: "inspect ?c = \<lparr>state = Some 5, stack = [catch_frame 9], params = Some (JObj [(''error'', JStr ''e'')])\<rparr>"
    using inspect_unwinds [OF hc, THEN conjunct1, rule_format,
            of "[let_frame [], params_frame None]" "catch_frame 5" "[catch_frame 9]" 5]
    by (simp add: let_frame_def params_frame_def catch_frame_def)
  have 2: "inspect ?d = \<lparr>state = None, stack = [], params = Some (JObj [(''error'', JStr ''e'')])\<rparr>
        \<and> loop (states_of (compile let_example [])) no_eval (inspect ?d) = Some (Return (JObj [(''error'', JStr ''e'')]))"
    using inspect_unwinds [OF hd, THEN conjunct2, of "states_of (compile let_example [])" no_eval]
    by (auto simp: let_frame_def params_frame_def)
  from 1 2 show ?thesis by auto
qed

text \<open>
  Claim C5 as stated fails in its last part when the error value is defined and falsy:
  with \<open>{error: false, x: 1}\<close> and no handler the interpreter ends with the success form
  \<open>{params: {error: false}}\<close>, not with a terminal error.
\<close>

theorem falsy_error_not_terminal_error:
  "loop (states_of (compile let_example [])) no_eval
     (inspect \<lparr>state = Some 1, stack = [let_frame []],
               params = Some (JObj [(''error'', JBool False), (''x'', JNum 1)])\<rparr>)
   = Some (Return (JObj [(''params'', JObj [(''error'', JBool False)])]))"
  by (simp add: inspect_def let_frame_def loop.simps finish_def entry_def)

text \<open>
  Claim C10.  inspect unwinds whenever \<open>params.error\<close> is defined, also for a falsy
  value: it jumps to the first handler on the stack, and with no handler it empties the
  stack and leaves the state undefined.  The final state tests \<open>params.error\<close> for
  truthiness, so in the second case the invocation ends with the success form
  \<open>{params: {error: e}}\<close>, which the catch-all leaves as it is.
\<close>

theorem falsy_error_is_success:
  assumes "map_of (wrap (params c)) ''error'' = Some e" and "\<not> truthy (Some e)"
  shows "(\<forall>pre f n rest. stack c = pre @ f # rest \<and> (\<forall>g \<in> set pre. frame_catch g = None)
              \<and> frame_catch f = Some n
            \<longrightarrow> inspect c = c\<lparr>state := Some n, stack := rest, params := Some (JObj [(''error'', e)])\<rparr>)
       \<and> ((\<forall>g \<in> set (stack c). frame_catch g = None)
            \<longrightarrow> inspect c = c\<lparr>state := None, stack := [], params := Some (JObj [(''error'', e)])\<rparr>
              \<and> loop fsm ev (inspect c) = Some (Return (JObj [(''params'', JObj [(''error'', e)])]))
              \<and> settle (Return (JObj [(''params'', JObj [(''error'', e)])]))
                  = Return (JObj [(''params'', JObj [(''error'', e)])]))"
proof (intro conjI allI impI)
  fix pre f n rest
  assume "stack c = pre @ f # rest \<and> (\<forall>g \<in> set pre. frame_catch g = None) \<and> frame_catch f = Some n"
  then show "inspect c = c\<lparr>state := Some n, stack := rest, params := Some (JObj [(''error'', e)])\<rparr>"
    using inspect_error_catch [OF assms(1)] by blast
next
  assume n: "\<forall>g \<in> set (stack c). frame_catch g = None"
  show i: "inspect c = c\<lparr>state := None, stack := [], params := Some (JObj [(''error'', e)])\<rparr>"
    using inspect_error_no_catch [OF assms(1) n] .
  show "loop fsm ev (inspect c) = Some (Return (JObj [(''params'', JObj [(''error'', e)])]))"
    unfolding i using assms(2) by (simp add: loop_final finish_error)
next
  show "settle (Return (JObj [(''params'', JObj [(''error'', e)])]))
          = Return (JObj [(''params'', JObj [(''error'', e)])])"
    by (simp add: settle_def)
qed

theorem falsy_error_is_success_witness:
  "\<not> truthy (Some JNull)
   \<and> inspect \<lparr>state = Some 1, stack = [let_frame [], catch_frame 5, catch_frame 9],
              params = Some (JObj [(''error'', JNull)])\<rparr>
     = \<lparr>state = Some 5, stack = [catch_frame 9], params = Some (JObj [(''error'', JNull)])\<rparr>
   \<and> inspect \<lparr>state = Some 1, stack = [let_frame []], params = Some (JObj [(''error'', JNull)])\<rparr>
     = \<lparr>state = None, stack = [], params = Some (JObj [(''error'', JNull)])\<rparr>
   \<and> loop (states_of (compile let_example [])) no_eval
          (inspect \<lparr>state = Some 1, stack = [let_frame []], params = Some (JObj [(''error'', JNull)])\<rparr>)
     = Some (Return (JObj [(''params'', JObj [(''error'', JNull)])]))"
proof -
  let ?p = "Some (JObj [(''error'', JNull)])"
  let ?c = "\<lparr>state = Some 1, stack = [let_frame [], catch_frame 5, catch_frame 9], params = ?p\<rparr>"
  let ?d = "\<lparr>state = Some 1, stack = [let_frame []], params = ?p\<rparr>"
  have f: "\<not> truthy (Some JNull)" by simp
  have hc: "map_of (wrap (params ?c)) ''error'' = Some JNull" by simp
  have hd: "map_of (wrap (params ?d)) ''error'' = Some JNull" by simp
  have 1: "inspect ?c = \<lparr>state = Some 5, stack = [catch_frame 9], params = ?p\<rparr>"
    using falsy_error_is_success [OF hc f, THEN conjunct1, rule_format,
            of "[let_frame []]" "catch_frame 5" "[catch_frame 9]" 5]
    by (simp add: let_frame_def catch_frame_def)
  have 2: "inspect ?d = \<lparr>state = None, stack = [], params = ?p\<rparr>
        \<and> loop (states_of (compile let_example [])) no_eval (inspect ?d)
            = Some (Return (JObj [(''params'', JObj [(''error'', JNull)])]))"
    using falsy_error_is_success [OF hd f, THEN conjunct2, of "states_of (compile let_example [])" no_eval]
    by (auto simp: let_frame_def)
  from f 1 2 show ?thesis by auto
qed

text \<open>The same on a whole composition: \<open>let({x: 1}, literal({error: 0}))\<close> on \<open>{}\<close>.\<close>

lemma falsy_error_composition:
  "conductor (C_let [(''x'', JNum 1)] (C_literal (JObj [(''error'', JNum 0)]))) ev (JObj [])
     = Some (Return (JObj [(''params'', JObj [(''error'', JNum 0)])]))"
proof -
  have "compile (C_let [(''x'', JNum 1)] (C_literal (JObj [(''error'', JNum 0)]))) [] =
     Inr [\<lparr>kind = S_let [(''x'', JNum 1)], path = [], next = Some 1\<rparr>,
          \<lparr>kind = S_literal (JObj [(''error'', JNum 0)]), path = ''.body'', next = Some 1\<rparr>,
          \<lparr>kind = S_exit, path = [], next = None\<rparr>]"
    by (simp add: chain_def set_last_next_def new_state_def)
  then show ?thesis
    unfolding conductor_def
    by (simp add: invoke_def resume_def loop.simps step_def let_frame_def
          inspect_def wrap_def entry_def finish_def settle_def)
qed

section \<open>Resuming\<close>




section \<open>Function states\<close>


lemma show_int_1 [simp]: "show_int 1 = ''1''"
  by (simp add: show_int_def show_nat.simps digit_char_def)




text \<open>The first scenario of the specification,
  \<open>seq(literal({x: 1}), function('p => ({x: p.x + 1})'))\<close> on \<open>{}\<close>, with an engine that
  runs this code.\<close>

lemma increment_composition:
  "conductor (C_seq [C_literal (JObj [(''x'', JNum 1)]), C_function (Exec ''nodejs:default'' ''p => ({x: p.x + 1})'')])
     (\<lambda>f p env. \<lparr>outcome = (case p of Some (JObj [(''x'', JNum n)]) \<Rightarrow> Returned (Inr (JObj [(''x'', JNum (n + 1))]))
                                     | _ \<Rightarrow> Threw),
                  environment = map (\<lambda>(k, v). (k, Inr v)) env, reached = (\<lambda>k v. Some v)\<rparr>)
     (JObj [])
   = Some (Return (JObj [(''params'', JObj [(''x'', JNum 2)])]))"
proof -
  have "compile (C_seq [C_literal (JObj [(''x'', JNum 1)]),
                        C_function (Exec ''nodejs:default'' ''p => ({x: p.x + 1})'')]) [] =
     Inr [\<lparr>kind = S_literal (JObj [(''x'', JNum 1)]), path = ''[0]'', next = Some 1\<rparr>,
          \<lparr>kind = S_function (Exec ''nodejs:default'' ''p => ({x: p.x + 1})''), path = ''[1]'', next = None\<rparr>]"
    by (simp add: bnd_def chain_def set_last_next_def new_state_def show_nat.simps digit_char_def)
  then show ?thesis
    unfolding conductor_def
    by (simp add: invoke_def resume_def loop.simps step_def run_def followed_def proto_free_def
          inspect_def wrap_def entry_def finish_def settle_def)
qed

section \<open>The environment of a function state\<close>

lemma map_of_put: "map_of (put k v kvs) a = (if a = k then Some v else map_of kvs a)"
  by (induction kvs) auto

lemma keys_put: "fst ` set (put k v kvs) = insert k (fst ` set kvs)"
  by (induction kvs) force+

lemma map_of_assign:
  "distinct (map fst src) \<Longrightarrow>
   map_of (assign acc src) a = (case map_of src a of Some v \<Rightarrow> Some v | None \<Rightarrow> map_of acc a)"
proof (induction src arbitrary: acc)
  case Nil
  then show ?case by simp
next
  case (Cons kv src)
  obtain k v where kv: "kv = (k, v)" by (cases kv)
  from Cons.prems kv have k: "k \<notin> fst ` set src" and d: "distinct (map fst src)" by auto
  from k have n: "map_of src k = None" by (simp add: map_of_eq_None_iff)
  show ?case
    using Cons.IH [OF d, of "put k v acc"] kv n
    by (auto simp: map_of_put split: option.splits)
qed

lemma keys_assign: "fst ` set (assign acc src) = fst ` set acc \<union> fst ` set src"
proof (induction src arbitrary: acc)
  case Nil
  then show ?case by simp
next
  case (Cons kv src)
  obtain k v where kv: "kv = (k, v)" by (cases kv)
  have "fst ` set (assign (put k v acc) src) = insert k (fst ` set acc) \<union> fst ` set src"
    using Cons.IH [of "put k v acc"] by (simp add: keys_put)
  with kv show ?case by simp
qed

lemma collapse_declared:
  "frames_ok st \<Longrightarrow> map_of (collapse st) name = declared st name"
proof (induction st)
  case Nil
  then show ?case by simp
next
  case (Cons f fs)
  then have ih: "map_of (collapse fs) name = declared fs name" by (simp add: frames_ok_def)
  show ?case
  proof (cases "frame_let f")
    case None
    with ih show ?thesis by simp
  next
    case (Some l)
    with Cons.prems have "distinct (map fst l)" by (simp add: frames_ok_def)
    with Some ih show ?thesis
      by (simp add: map_of_assign split: option.splits)
  qed
qed

lemma keys_rebind [simp]: "map fst (rebind g sh l) = map fst l"
  by (induction l) (auto simp: rebind_def)

lemma rebind_outside:
  "n \<notin> fst ` set l \<Longrightarrow> rebind (\<lambda>m. if m = n then Some x else g m) sh l = rebind g sh l"
  by (induction l) (auto simp: rebind_def)

lemma rebind_shadowed:
  "n \<in> set sh \<Longrightarrow> rebind (\<lambda>m. if m = n then Some x else g m) sh l = rebind g sh l"
  by (induction l) (auto simp: rebind_def)

lemma put_rebind:
  "distinct (map fst l) \<Longrightarrow> n \<in> fst ` set l \<Longrightarrow> n \<notin> set sh \<Longrightarrow>
   put n x (rebind g sh l) = rebind (\<lambda>m. if m = n then Some x else g m) sh l"
proof (induction l)
  case Nil
  then show ?case by simp
next
  case (Cons kv l)
  obtain k v where kv: "kv = (k, v)" by (cases kv)
  show ?case
  proof (cases "k = n")
    case True
    with Cons.prems kv have "n \<notin> fst ` set l" by auto
    then have "rebind (\<lambda>m. if m = n then Some x else g m) sh l = rebind g sh l" by (rule rebind_outside)
    then show ?thesis using True kv Cons.prems(3) by (simp add: rebind_def)
  next
    case False
    with Cons.prems kv have "n \<in> fst ` set l" "distinct (map fst l)" by auto
    with Cons.IH Cons.prems(3) have "put n x (rebind g sh l) = rebind (\<lambda>m. if m = n then Some x else g m) sh l" by simp
    then show ?thesis using False kv by (simp add: rebind_def)
  qed
qed

lemma put_present: "n \<in> fst ` set a \<Longrightarrow> put n x (a @ b) = put n x a @ b"
proof (induction a)
  case Nil
  then show ?case by simp
next
  case (Cons kv a)
  obtain k v where kv: "kv = (k, v)" by (cases kv)
  show ?case
  proof (cases "k = n")
    case True
    with kv show ?thesis by simp
  next
    case False
    with Cons.prems kv have "n \<in> fst ` set a" by auto
    from Cons.IH [OF this] False kv show ?thesis by simp
  qed
qed

lemma put_absent: "n \<notin> fst ` set a \<Longrightarrow> put n x a = a @ [(n, x)]"
  by (induction a) auto

lemma inherited_writes_append:
  "inherited_writes g (xs @ ys) sh l = inherited_writes g xs sh l @ inherited_writes g ys sh l"
  by (simp add: inherited_writes_def)

lemma inherited_writes_cong:
  "(\<And>m. m \<in> set names \<Longrightarrow> g m = h m) \<Longrightarrow> inherited_writes g names sh l = inherited_writes h names sh l"
  by (induction names) (auto simp: inherited_writes_def)

lemma inherited_writes_none:
  "(\<And>m. m \<in> set names \<Longrightarrow> g m = None) \<Longrightarrow> inherited_writes g names sh l = []"
  by (induction names) (auto simp: inherited_writes_def)

lemma keys_inherited_writes:
  "n \<in> fst ` set (inherited_writes g names sh l) \<Longrightarrow>
   g n \<noteq> None \<and> n \<in> set object_prototype \<and> n \<notin> set sh \<and> n \<notin> set (map fst l)"
  by (auto simp: inherited_writes_def rev_image_eqI split: option.splits if_splits)

lemma inherited_writes_same:
  "n \<notin> set object_prototype \<or> n \<in> set sh \<or> n \<in> set (map fst l) \<Longrightarrow>
   inherited_writes (\<lambda>m. if m = n then Some x else g m) names sh l = inherited_writes g names sh l"
  by (induction names) (auto simp: inherited_writes_def split: option.splits)

lemma inherited_writes_next:
  assumes "distinct (pre @ n # post)" and "\<And>m. g m \<noteq> None \<Longrightarrow> m \<in> set pre"
    and "n \<in> set object_prototype" and "n \<notin> set sh" and "n \<notin> set (map fst l)"
  shows "inherited_writes (\<lambda>m. if m = n then Some x else g m) (pre @ n # post) sh l
         = inherited_writes g (pre @ n # post) sh l @ [(n, x)]"
proof -
  let ?h = "\<lambda>m. if m = n then Some x else g m"
  from assms(1) have np: "n \<notin> set pre" and nq: "n \<notin> set post" and dj: "set pre \<inter> set post = {}"
    by auto
  have gn: "g n = None" using np assms(2) by blast
  have gq: "g m = None" if "m \<in> set post" for m
    using that dj assms(2) [of m] by blast
  have a: "inherited_writes ?h pre sh l = inherited_writes g pre sh l"
    using np by (intro inherited_writes_cong) auto
  have b: "inherited_writes ?h post sh l = []"
    using nq gq by (intro inherited_writes_none) auto
  have c: "inherited_writes g post sh l = []"
    using gq by (intro inherited_writes_none) auto
  have d: "inherited_writes ?h [n] sh l = [(n, x)]"
    using assms(3,4,5) by (simp add: inherited_writes_def)
  have e: "inherited_writes g [n] sh l = []"
    using gn by (simp add: inherited_writes_def)
  have "inherited_writes ?h (pre @ [n] @ post) sh l = inherited_writes g (pre @ [n] @ post) sh l @ [(n, x)]"
    unfolding inherited_writes_append a b c d e by simp
  then show ?thesis by simp
qed

lemma written_shadowed:
  "n \<in> set sh \<Longrightarrow>
   written (\<lambda>m. if m = n then Some x else g m) names sh st = written g names sh st"
proof (induction st arbitrary: sh)
  case Nil
  then show ?case by simp
next
  case (Cons f fs)
  show ?case
  proof (cases "frame_let f")
    case None
    with Cons show ?thesis by simp
  next
    case (Some l)
    from Cons.prems have "n \<in> set (sh @ map fst l @ object_prototype)" by simp
    from Cons.IH [OF this] Some Cons.prems show ?thesis
      by (simp add: rebind_shadowed inherited_writes_same)
  qed
qed

lemma written_unmatched:
  "\<not> matched st n \<Longrightarrow>
   written (\<lambda>m. if m = n then Some x else g m) names sh st = written g names sh st"
proof (induction st arbitrary: sh)
  case Nil
  then show ?case by simp
next
  case (Cons f fs)
  from Cons.prems have u: "\<not> matched fs n" by (simp add: matched_def)
  show ?case
  proof (cases "frame_let f")
    case None
    with Cons.IH [OF u] show ?thesis by simp
  next
    case (Some l)
    with Cons.prems have "\<not> has_symbol l n" by (simp add: matched_def)
    then have o: "n \<notin> fst ` set l" and q: "n \<notin> set object_prototype"
      by (auto simp: has_symbol_def map_of_eq_None_iff)
    from Cons.IH [OF u] Some o q show ?thesis
      by (simp add: rebind_outside inherited_writes_same)
  qed
qed

lemma has_symbol_written:
  "has_symbol (rebind g sh l @ inherited_writes g names sh l) n \<longleftrightarrow> has_symbol l n"
proof -
  have "n \<in> fst ` set (rebind g sh l @ inherited_writes g names sh l) \<longleftrightarrow>
        n \<in> fst ` set l \<or> n \<in> fst ` set (inherited_writes g names sh l)"
    by (simp add: image_Un flip: set_map)
  moreover have "n \<in> fst ` set (inherited_writes g names sh l) \<Longrightarrow> n \<in> set object_prototype"
    using keys_inherited_writes by blast
  ultimately show ?thesis
    by (auto simp: has_symbol_def map_of_eq_None_iff simp del: map_of_append)
qed

lemma set_symbol_written:
  assumes "frames_ok st" and "n \<notin> set sh" and "distinct (pre @ n # post)"
    and "\<And>m. g m \<noteq> None \<Longrightarrow> m \<in> set pre"
  shows "set_symbol n (Inr x) (written g (pre @ n # post) sh st)
         = Inr (written (\<lambda>m. if m = n then Some x else g m) (pre @ n # post) sh st)"
  using assms(1,2)
proof (induction st arbitrary: sh)
  case Nil
  then show ?case by simp
next
  case (Cons f fs)
  let ?names = "pre @ n # post"
  let ?h = "\<lambda>m. if m = n then Some x else g m"
  from Cons.prems have ok: "frames_ok fs" by (simp add: frames_ok_def)
  from assms(3) have np: "n \<notin> set pre" by auto
  have gn: "g n = None" using np assms(4) by blast
  show ?case
  proof (cases "frame_let f")
    case None
    with Cons.IH [OF ok Cons.prems(2)] show ?thesis by (simp add: bnd_def)
  next
    case (Some l)
    with Cons.prems have d: "distinct (map fst l)" by (simp add: frames_ok_def)
    let ?l' = "rebind g sh l @ inherited_writes g ?names sh l"
    have ni: "n \<notin> fst ` set (inherited_writes g ?names sh l)"
      using keys_inherited_writes [of n g ?names sh l] gn by blast
    have t: "written ?h ?names (sh @ map fst l @ object_prototype) fs
             = written g ?names (sh @ map fst l @ object_prototype) fs"
      if "n \<in> fst ` set l \<or> n \<in> set object_prototype"
      using that by (intro written_shadowed) auto
    consider (own) "n \<in> fst ` set l" | (inh) "n \<notin> fst ` set l" "n \<in> set object_prototype"
      | (none) "n \<notin> fst ` set l" "n \<notin> set object_prototype" by blast
    then show ?thesis
    proof cases
      case own
      then have h: "has_symbol ?l' n"
        by (simp add: has_symbol_written) (auto simp: has_symbol_def map_of_eq_None_iff)
      have "put n x ?l' = put n x (rebind g sh l) @ inherited_writes g ?names sh l"
        using own by (intro put_present) (simp flip: set_map)
      also have "\<dots> = rebind ?h sh l @ inherited_writes ?h ?names sh l"
        using put_rebind [OF d own Cons.prems(2)] own
        by (simp add: inherited_writes_same flip: set_map)
      finally have p: "put n x ?l' = rebind ?h sh l @ inherited_writes ?h ?names sh l" .
      from Some h p t own show ?thesis by simp
    next
      case inh
      then have h: "has_symbol ?l' n"
        by (simp add: has_symbol_written) (simp add: has_symbol_def)
      have "n \<notin> fst ` set ?l'" using inh(1) ni by (simp add: image_Un flip: set_map)
      then have "put n x ?l' = ?l' @ [(n, x)]" by (rule put_absent)
      also have "\<dots> = rebind ?h sh l @ inherited_writes ?h ?names sh l"
        using inherited_writes_next [where l = l and x = x, OF assms(3) assms(4) inh(2) Cons.prems(2)] inh(1)
        by (simp add: rebind_outside flip: set_map)
      finally have p: "put n x ?l' = rebind ?h sh l @ inherited_writes ?h ?names sh l" .
      from Some h p t inh show ?thesis by simp
    next
      case none
      then have h: "\<not> has_symbol ?l' n"
        by (simp add: has_symbol_written) (auto simp: has_symbol_def map_of_eq_None_iff)
      from none Cons.prems(2) have "n \<notin> set (sh @ map fst l @ object_prototype)" by auto
      from Cons.IH [OF ok this] Some h none show ?thesis
        by (simp add: bnd_def rebind_outside inherited_writes_same)
    qed
  qed
qed

lemma set_symbol_fails:
  "matched st n \<Longrightarrow> set_symbol n (Inl e) (written g names sh st) = Inl e"
proof (induction st arbitrary: sh)
  case Nil
  then show ?case by (simp add: matched_def)
next
  case (Cons f fs)
  show ?case
  proof (cases "frame_let f")
    case None
    with Cons.prems have "matched fs n" by (simp add: matched_def)
    from Cons.IH [OF this] None show ?thesis by (simp add: bnd_def)
  next
    case (Some l)
    show ?thesis
    proof (cases "has_symbol l n")
      case True
      with Some show ?thesis by (simp add: has_symbol_written)
    next
      case False
      with Cons.prems Some have "matched fs n" by (simp add: matched_def)
      from Cons.IH [OF this] Some False show ?thesis by (simp add: has_symbol_written bnd_def)
    qed
  qed
qed

lemma set_symbol_unmatched:
  "\<not> matched st n \<Longrightarrow> set_symbol n v (written g names sh st) = Inr (written g names sh st)"
proof (induction st arbitrary: sh)
  case Nil
  then show ?case by simp
next
  case (Cons f fs)
  from Cons.prems have u: "\<not> matched fs n" by (simp add: matched_def)
  show ?case
  proof (cases "frame_let f")
    case None
    with Cons.IH [OF u] show ?thesis by (simp add: bnd_def)
  next
    case (Some l)
    with Cons.prems have "\<not> has_symbol l n" by (simp add: matched_def)
    with Cons.IH [OF u] Some show ?thesis by (simp add: has_symbol_written bnd_def)
  qed
qed

lemma serialised_Nil [simp]: "serialised [] m = None"
  by (simp add: serialised_def)

lemma serialised_Cons:
  "serialised ((n, v) # fin) m =
     (if m = n then (case v of Inr x \<Rightarrow> Some x | Inl _ \<Rightarrow> None) else serialised fin m)"
  by (simp add: serialised_def split: sum.splits)

lemma serialised_outside: "m \<notin> fst ` set fin \<Longrightarrow> serialised fin m = None"
  by (simp add: serialised_def map_of_eq_None_iff [THEN iffD2])

lemma write_back_written:
  assumes "frames_ok st" and "distinct (map fst (pre @ rest))"
    and "\<And>m. g m \<noteq> None \<Longrightarrow> m \<in> fst ` set pre"
  shows "\<exists>err. write_back rest (written g (map fst (pre @ rest)) [] st)
          = (written (\<lambda>m. case serialised (takeWhile (succeeds st) rest) m of
                             Some x \<Rightarrow> Some x | None \<Rightarrow> g m) (map fst (pre @ rest)) [] st, err)
          \<and> (err = None \<longleftrightarrow> list_all (succeeds st) rest)"
  using assms(2,3)
proof (induction rest arbitrary: pre g)
  case Nil
  then show ?case by simp
next
  case (Cons nv rest)
  obtain n v where nv: "nv = (n, v)" by (cases nv)
  let ?names = "map fst (pre @ nv # rest)"
  have names: "?names = map fst pre @ n # map fst rest" using nv by simp
  from Cons.prems(1) have dn: "distinct (map fst pre @ n # map fst rest)" using nv by simp
  then have nr: "n \<notin> fst ` set rest" by auto
  have tw: "fst ` set (takeWhile (succeeds st) rest) \<subseteq> fst ` set rest"
    using set_takeWhileD by fastforce
  from nr tw have nt: "serialised (takeWhile (succeeds st) rest) n = None"
    by (intro serialised_outside) blast
  have d': "distinct (map fst ((pre @ [nv]) @ rest))" using Cons.prems(1) by simp
  have e': "?names = map fst ((pre @ [nv]) @ rest)" by simp
  show ?case
  proof (cases v)
    case (Inr x)
    let ?h = "\<lambda>m. if m = n then Some x else g m"
    have s: "set_symbol n (Inr x) (written g ?names [] st) = Inr (written ?h ?names [] st)"
      unfolding names
      using Cons.prems(2) by (intro set_symbol_written [OF assms(1) _ dn]) auto
    have sup: "\<And>m. ?h m \<noteq> None \<Longrightarrow> m \<in> fst ` set (pre @ [nv])"
      using Cons.prems(2) nv by (auto split: if_splits)
    from Cons.IH [of "pre @ [nv]" ?h, OF d' sup] obtain err where
      ih: "write_back rest (written ?h ?names [] st)
           = (written (\<lambda>m. case serialised (takeWhile (succeeds st) rest) m of
                              Some x \<Rightarrow> Some x | None \<Rightarrow> ?h m) ?names [] st, err)"
      and er: "err = None \<longleftrightarrow> list_all (succeeds st) rest"
      unfolding e' by blast
    have su: "succeeds st nv" using nv Inr by (simp add: succeeds_def)
    have eq: "(\<lambda>m. case serialised (takeWhile (succeeds st) rest) m of Some x \<Rightarrow> Some x | None \<Rightarrow> ?h m)
            = (\<lambda>m. case serialised (takeWhile (succeeds st) (nv # rest)) m of Some x \<Rightarrow> Some x | None \<Rightarrow> g m)"
      using su nv Inr nt by (auto simp: fun_eq_iff serialised_Cons split: option.splits)
    from ih er s su nv Inr show ?thesis
      unfolding eq [symmetric] by simp
  next
    case (Inl e)
    show ?thesis
    proof (cases "matched st n")
      case True
      then have s: "set_symbol n (Inl e) (written g ?names [] st) = Inl e"
        by (rule set_symbol_fails)
      have su: "\<not> succeeds st nv" using nv Inl True by (simp add: succeeds_def)
      from s su nv Inl show ?thesis by simp
    next
      case False
      then have s: "set_symbol n (Inl e) (written g ?names [] st) = Inr (written g ?names [] st)"
        by (rule set_symbol_unmatched)
      have sup: "\<And>m. g m \<noteq> None \<Longrightarrow> m \<in> fst ` set (pre @ [nv])"
        using Cons.prems(2) by auto
      from Cons.IH [of "pre @ [nv]" g, OF d' sup] obtain err where
        ih: "write_back rest (written g ?names [] st)
             = (written (\<lambda>m. case serialised (takeWhile (succeeds st) rest) m of
                                Some x \<Rightarrow> Some x | None \<Rightarrow> g m) ?names [] st, err)"
        and er: "err = None \<longleftrightarrow> list_all (succeeds st) rest"
        unfolding e' by blast
      have su: "succeeds st nv" using nv Inl False by (simp add: succeeds_def)
      have eq: "(\<lambda>m. case serialised (takeWhile (succeeds st) rest) m of Some x \<Rightarrow> Some x | None \<Rightarrow> g m)
              = (\<lambda>m. case serialised (takeWhile (succeeds st) (nv # rest)) m of Some x \<Rightarrow> Some x | None \<Rightarrow> g m)"
        using su nv Inl nt by (auto simp: fun_eq_iff serialised_Cons split: option.splits)
      from ih er s su nv Inl show ?thesis
        unfolding eq [symmetric] by simp
    qed
  qed
qed

lemma rebind_nothing [simp]: "rebind (\<lambda>n. None) sh l = l"
  by (induction l) (auto simp: rebind_def)

lemma inherited_writes_nothing [simp]: "inherited_writes (\<lambda>n. None) names sh l = []"
  by (intro inherited_writes_none) simp

lemma written_nothing [simp]: "written (\<lambda>n. None) names sh st = st"
  by (induction st arbitrary: sh) (auto split: option.splits)

lemma keys_touch [simp]: "map fst (touch a sh l) = map fst l"
  by (induction l) (auto simp: touch_def)

lemma frames_ok_touched: "frames_ok st \<Longrightarrow> frames_ok (touched a sh st)"
  by (induction st arbitrary: sh) (auto simp: frames_ok_def split: option.splits)

lemma has_symbol_touch [simp]: "has_symbol (touch a sh l) n = has_symbol l n"
proof -
  have "map_of (touch a sh l) n = None \<longleftrightarrow> map_of l n = None"
    by (simp add: map_of_eq_None_iff flip: set_map)
  then show ?thesis by (simp add: has_symbol_def)
qed

lemma matched_touched [simp]: "matched (touched a sh st) n = matched st n"
  by (induction st arbitrary: sh) (auto simp: matched_def split: option.splits)

lemma succeeds_touched [simp]: "succeeds (touched a sh st) = succeeds st"
  by (simp add: fun_eq_iff succeeds_def split: sum.splits)

lemma write_back_environment:
  assumes "frames_ok st" and "distinct (map fst fin)"
  shows "\<exists>err. write_back fin (touched a [] st)
          = (written (serialised (takeWhile (succeeds st) fin)) (map fst fin) [] (touched a [] st), err)
          \<and> (err = None \<longleftrightarrow> list_all (succeeds st) fin)"
proof -
  have e: "(\<lambda>m. case serialised (takeWhile (succeeds st) fin) m of Some x \<Rightarrow> Some x | None \<Rightarrow> None)
         = serialised (takeWhile (succeeds st) fin)"
    by (auto simp: fun_eq_iff split: option.splits)
  from write_back_written [of "touched a [] st" "[]" fin "\<lambda>m. None"] assms
  show ?thesis
    by (simp add: frames_ok_touched e)
qed

lemma written_shape:
  "map frame_catch (written g names sh st) = map frame_catch st
   \<and> map frame_params (written g names sh st) = map frame_params st"
  by (induction st arbitrary: sh) (auto split: option.splits)

lemma touched_shape:
  "map frame_catch (touched a sh st) = map frame_catch st
   \<and> map frame_params (touched a sh st) = map frame_params st"
  by (induction st arbitrary: sh) (auto split: option.splits)

text \<open>
  What \<open>run\<close> does to the stack.  For a stack of frames (each \<open>let\<close> an object, so
  with distinct names), a call that is followed and an environment that lists each name
  once: the environment gives each name the value of the topmost frame that declares it,
  so a frame nearer the top overrides a deeper one.  After the call the frames hold the
  objects of the environment as the call left them, and \<open>run\<close> has gone through the
  names that the environment lists, in order, as far as the first name that some \<open>let\<close>
  frame has and whose value does not serialise (\<open>undefined\<close>, a function): there the
  write-back throws, the names after it are not written, and \<open>run\<close> throws.  The value
  of a name gone through is put into the topmost \<open>let\<close> frame that has the name, as a
  declaration or as a name of \<open>Object.prototype\<close>: a declaration takes the value unless
  its name is shadowed, and the first \<open>let\<close> frame receives as a new declaration each
  name of \<open>Object.prototype\<close> that it does not declare.  The value of a name that no
  \<open>let\<close> frame has is not written, and the frames keep their \<open>catch\<close> and \<open>params\<close>.
\<close>

theorem environment_and_write_back:
  assumes "\<forall>f \<in> set (stack c). \<forall>l. frame_let f = Some l \<longrightarrow> distinct (map fst l)"
    and "ev f (params c) (collapse (stack c)) = e"
    and "followed e (collapse (stack c)) (stack c)"
    and "distinct (map fst (environment e))"
  shows "map_of (collapse (stack c)) = declared (stack c)
       \<and> run ev f c =
           Some (written (serialised (takeWhile (succeeds (stack c)) (environment e)))
                         (map fst (environment e)) [] (touched (reached e) [] (stack c)),
                 if list_all (succeeds (stack c)) (environment e) then outcome e else Threw)
       \<and> map frame_catch (written (serialised (takeWhile (succeeds (stack c)) (environment e)))
                         (map fst (environment e)) [] (touched (reached e) [] (stack c)))
           = map frame_catch (stack c)
       \<and> map frame_params (written (serialised (takeWhile (succeeds (stack c)) (environment e)))
                         (map fst (environment e)) [] (touched (reached e) [] (stack c)))
           = map frame_params (stack c)
       \<and> (\<forall>n x g names. \<not> matched (stack c) n \<longrightarrow>
             written (\<lambda>m. if m = n then Some x else g m) names [] (touched (reached e) [] (stack c))
             = written g names [] (touched (reached e) [] (stack c)))"
proof -
  let ?st = "touched (reached e) [] (stack c)"
  let ?w = "written (serialised (takeWhile (succeeds (stack c)) (environment e)))
                    (map fst (environment e)) [] ?st"
  from assms(1) have ok: "frames_ok (stack c)" by (simp add: frames_ok_def)
  have a: "map_of (collapse (stack c)) = declared (stack c)"
    using collapse_declared [OF ok] by (simp add: fun_eq_iff)
  from write_back_environment [OF ok assms(4), of "reached e"] obtain err where
    w: "write_back (environment e) ?st = (?w, err)"
    and er: "err = None \<longleftrightarrow> list_all (succeeds (stack c)) (environment e)"
    by blast
  have b: "run ev f c = Some (?w, if list_all (succeeds (stack c)) (environment e) then outcome e else Threw)"
  proof (cases err)
    case None
    with w er assms(2,3) show ?thesis by (simp add: run_def)
  next
    case (Some x)
    with w er assms(2,3) show ?thesis by (simp add: run_def)
  qed
  have s: "map frame_catch ?w = map frame_catch (stack c)"
    using written_shape [of "serialised (takeWhile (succeeds (stack c)) (environment e))"
                            "map fst (environment e)" "[]" ?st]
          touched_shape [of "reached e" "[]" "stack c"] by simp
  have p: "map frame_params ?w = map frame_params (stack c)"
    using written_shape [of "serialised (takeWhile (succeeds (stack c)) (environment e))"
                            "map fst (environment e)" "[]" ?st]
          touched_shape [of "reached e" "[]" "stack c"] by simp
  have u: "written (\<lambda>m. if m = n then Some x else g m) names [] ?st = written g names [] ?st"
    if "\<not> matched (stack c) n" for n x g names
    using that by (intro written_unmatched) simp
  from a b s p u show ?thesis by blast
qed

text \<open>Two \<open>let\<close> frames that both declare \<open>count\<close>, with a \<open>catch\<close> frame between them.
  The code leaves \<open>count = 0\<close>, \<open>b = 8\<close>, \<open>a\<close> undefined and \<open>o\<close> as it is, after it has
  set \<open>o.k = 1\<close>: \<open>count\<close> and \<open>b\<close> are written, the write of \<open>a\<close> throws, and the
  object \<open>o\<close> of the frame is changed although \<open>o\<close> is not written.\<close>

theorem environment_and_write_back_witness:
  "collapse [let_frame [(''count'', JNum 1), (''a'', JNum 5), (''o'', JObj [])], catch_frame 3,
             let_frame [(''count'', JNum 9), (''b'', JNum 7)]]
     = [(''count'', JNum 1), (''b'', JNum 7), (''a'', JNum 5), (''o'', JObj [])]
   \<and> run (\<lambda>f p env. \<lparr>outcome = Returned_undefined (Inr (JObj [])),
                      environment = [(''count'', Inr (JNum 0)), (''b'', Inr (JNum 8)),
                                     (''a'', Inl SyntaxError), (''o'', Inr (JObj [(''k'', JNum 1)]))],
                      reached = (\<lambda>k v. Some (JObj [(''k'', JNum 1)]))\<rparr>) ''f''
         \<lparr>state = Some 4,
          stack = [let_frame [(''count'', JNum 1), (''a'', JNum 5), (''o'', JObj [])], catch_frame 3,
                   let_frame [(''count'', JNum 9), (''b'', JNum 7)]],
          params = Some (JObj [])\<rparr>
     = Some ([let_frame [(''count'', JNum 0), (''a'', JNum 5), (''o'', JObj [(''k'', JNum 1)])], catch_frame 3,
              let_frame [(''count'', JNum 9), (''b'', JNum 8)]], Threw)"
proof -
  let ?st = "[let_frame [(''count'', JNum 1), (''a'', JNum 5), (''o'', JObj [])], catch_frame 3,
              let_frame [(''count'', JNum 9), (''b'', JNum 7)]]"
  let ?c = "\<lparr>state = Some 4, stack = ?st, params = Some (JObj [])\<rparr>"
  let ?e = "\<lparr>outcome = Returned_undefined (Inr (JObj [])),
             environment = [(''count'', Inr (JNum 0)), (''b'', Inr (JNum 8)),
                            (''a'', Inl SyntaxError), (''o'', Inr (JObj [(''k'', JNum 1)]))],
             reached = (\<lambda>k v. Some (JObj [(''k'', JNum 1)]))\<rparr>"
  let ?ev = "\<lambda>f p env. ?e"
  have env: "collapse ?st = [(''count'', JNum 1), (''b'', JNum 7), (''a'', JNum 5), (''o'', JObj [])]"
    by (simp add: let_frame_def catch_frame_def)
  have 1: "\<forall>f \<in> set (stack ?c). \<forall>l. frame_let f = Some l \<longrightarrow> distinct (map fst l)"
    by (simp add: let_frame_def catch_frame_def)
  have 2: "?ev ''f'' (params ?c) (collapse (stack ?c)) = ?e" by simp
  have 3: "followed ?e (collapse (stack ?c)) (stack ?c)"
    by (simp add: followed_def proto_free_def let_frame_def catch_frame_def)
  have 4: "distinct (map fst (environment ?e))" by simp
  have m: "matched ?st ''a''"
    by (simp add: matched_def has_symbol_def let_frame_def)
  have t: "takeWhile (succeeds ?st) (environment ?e) = [(''count'', Inr (JNum 0)), (''b'', Inr (JNum 8))]"
    using m by (simp add: succeeds_def)
  have "run ?ev ''f'' ?c
      = Some (written (serialised (takeWhile (succeeds ?st) (environment ?e)))
                      (map fst (environment ?e)) [] (touched (reached ?e) [] ?st),
              if list_all (succeeds ?st) (environment ?e) then outcome ?e else Threw)"
    using environment_and_write_back [of ?c ?ev "''f''" ?e, OF 1 2 3 4] by simp
  then have "run ?ev ''f'' ?c
     = Some ([let_frame [(''count'', JNum 0), (''a'', JNum 5), (''o'', JObj [(''k'', JNum 1)])], catch_frame 3,
              let_frame [(''count'', JNum 9), (''b'', JNum 8)]], Threw)"
    unfolding t using m
    by (simp add: let_frame_def catch_frame_def rebind_def inherited_writes_def serialised_def
          succeeds_def touch_def by_reference_def object_prototype_def)
  with env show ?thesis by simp
qed

lemma compile_shadow_example:
  "compile shadow_example [] =
     Inr [\<lparr>kind = S_let [(''toString'', JNum 1)], path = [], next = Some 1\<rparr>,
          \<lparr>kind = S_let [(''a'', JNum 1)], path = ''.body[0]'', next = Some 1\<rparr>,
          \<lparr>kind = S_function (Exec ''nodejs:default'' ''() => { toString = 2 }''),
             path = ''.body[0].body[0]'', next = Some 1\<rparr>,
          \<lparr>kind = S_exit, path = ''.body[0]'', next = Some 1\<rparr>,
          \<lparr>kind = S_function (Exec ''nodejs:default'' ''() => toString''), path = ''.body[1]'', next = Some 1\<rparr>,
          \<lparr>kind = S_exit, path = [], next = None\<rparr>]"
  by (simp add: shadow_example_def bnd_def chain_def set_last_next_def new_state_def
        show_nat.simps digit_char_def)

text \<open>
  Claim C8 describes what the write-back is meant to do, and the code misses it for a
  name that \<open>Object.prototype\<close> defines: \<open>set\<close> looks the name up with
  \<open>element.let[symbol]\<close>, which also finds inherited members.  With \<open>toString\<close>
  declared by the deeper of two \<open>let\<close> frames, the value of \<open>toString\<close> is written into
  the front frame, which does not declare it, and the frame that declares it keeps the
  old value: in \<open>let({toString: 1}, let({a: 1}, () => { toString = 2 }), () => toString)\<close>
  the second function sees \<open>toString = 1\<close>.  A second defect: when the code leaves \<open>a\<close>
  undefined and \<open>b = 5\<close>, the write of \<open>a\<close> throws and the new value of \<open>b\<close> is not
  written back.
\<close>

theorem write_back_beside_declaration:
  "run shadow_eval ''() => { toString = 2 }''
       \<lparr>state = Some 3,
        stack = [let_frame [(''a'', JNum 1)], let_frame [(''toString'', JNum 1)]],
        params = Some (JObj [])\<rparr>
     = Some ([let_frame [(''a'', JNum 1), (''toString'', JNum 2)], let_frame [(''toString'', JNum 1)]],
             Returned_undefined (Inr (JObj [])))
   \<and> conductor shadow_example shadow_eval (JObj [])
     = Some (Return (JObj [(''params'', JObj [(''value'', JNum 1)])]))
   \<and> run (\<lambda>f p env. \<lparr>outcome = Returned_undefined (Inr (JObj [])),
                      environment = [(''a'', Inl SyntaxError), (''b'', Inr (JNum 5))],
                      reached = (\<lambda>k v. Some v)\<rparr>) ''() => { a = undefined; b = 5 }''
       \<lparr>state = Some 1, stack = [let_frame [(''a'', JNum 1), (''b'', JNum 2)]], params = Some (JObj [])\<rparr>
     = Some ([let_frame [(''a'', JNum 1), (''b'', JNum 2)]], Threw)"
proof -
  have 1: "run shadow_eval ''() => { toString = 2 }''
       \<lparr>state = Some 3,
        stack = [let_frame [(''a'', JNum 1)], let_frame [(''toString'', JNum 1)]],
        params = Some (JObj [])\<rparr>
     = Some ([let_frame [(''a'', JNum 1), (''toString'', JNum 2)], let_frame [(''toString'', JNum 1)]],
             Returned_undefined (Inr (JObj [])))"
    by (simp add: run_def shadow_eval_def followed_def proto_free_def let_frame_def has_symbol_def
          object_prototype_def touch_def by_reference_def bnd_def)
  have 2: "conductor shadow_example shadow_eval (JObj [])
     = Some (Return (JObj [(''params'', JObj [(''value'', JNum 1)])]))"
    unfolding conductor_def compile_shadow_example
    by (simp add: invoke_def resume_def loop.simps step_def run_def shadow_eval_def followed_def
          proto_free_def let_frame_def has_symbol_def object_prototype_def touch_def by_reference_def
          bnd_def clone_params_def inspect_def wrap_def entry_def finish_def settle_def)
  have 3: "run (\<lambda>f p env. \<lparr>outcome = Returned_undefined (Inr (JObj [])),
                      environment = [(''a'', Inl SyntaxError), (''b'', Inr (JNum 5))],
                      reached = (\<lambda>k v. Some v)\<rparr>) ''() => { a = undefined; b = 5 }''
       \<lparr>state = Some 1, stack = [let_frame [(''a'', JNum 1), (''b'', JNum 2)]], params = Some (JObj [])\<rparr>
     = Some ([let_frame [(''a'', JNum 1), (''b'', JNum 2)]], Threw)"
    by (simp add: run_def followed_def proto_free_def let_frame_def has_symbol_def
          object_prototype_def touch_def by_reference_def bnd_def)
  from 1 2 3 show ?thesis by blast
qed

end
